theory Spec2Isabelle
  imports Main
begin

section \<open>The markdown viewer (src/js/markdown-viewer.js)\<close>

text \<open>
  The viewer is one \<^verbatim>\<open>DOMContentLoaded\<close> handler: it looks the render target up, fetches
  the document named by its \<^verbatim>\<open>data-file\<close> attribute, renders it with Marked, and then
  runs seven numbered steps over the rendered fragment. A single \<^verbatim>\<open>.catch\<close> at the end
  of the promise chain writes a failure message into the render target.

  JavaScript strings are modelled as \<^typ>\<open>string\<close>: one \<^typ>\<open>char\<close> per UTF-16 code unit,
  for the code units \<open>0x00\<close> to \<open>0xFF\<close>. The tree below is the part of the DOM the handler
  reads and writes: tag names, the \<^verbatim>\<open>id\<close>, the class list, the inline style
  declarations (keyed by the property name the script assigns), \<^verbatim>\<open>href\<close> and the children.
\<close>

subsection \<open>Strings\<close>

text \<open>The characters matched by \<^verbatim>\<open>\s\<close> (and removed by \<^verbatim>\<open>trim()\<close>) below \<open>0x100\<close>:
  tab, line feed, vertical tab, form feed, carriage return, space and no-break space.\<close>

definition is_space :: "char \<Rightarrow> bool" where
  "is_space c = (c \<in> set [CHR 0x09, CHR 0x0A, CHR 0x0B, CHR 0x0C, CHR 0x0D, CHR 0x20, CHR 0xA0])"

text \<open>The characters matched by \<^verbatim>\<open>\w\<close>: \<^verbatim>\<open>[A-Za-z0-9_]\<close>.\<close>

definition is_word :: "char \<Rightarrow> bool" where
  "is_word c = (let n = (of_char c :: nat) in
     (48 \<le> n \<and> n \<le> 57) \<or> (65 \<le> n \<and> n \<le> 90) \<or> n = 95 \<or> (97 \<le> n \<and> n \<le> 122))"

text \<open>\<^verbatim>\<open>String.prototype.trim\<close>.\<close>

definition trim :: "string \<Rightarrow> string" where
  "trim s = rev (dropWhile is_space (rev (dropWhile is_space s)))"

text \<open>\<^verbatim>\<open>.replace(/\s+/g, "-")\<close>: every maximal run of whitespace becomes one hyphen.\<close>

function replace_ws :: "string \<Rightarrow> string" where
  "replace_ws [] = []"
| "replace_ws (c # cs) =
     (if is_space c then CHR ''-'' # replace_ws (dropWhile is_space cs)
      else c # replace_ws cs)"
  by pat_completeness auto
termination
  by (relation "measure length") (auto simp: length_dropWhile_le less_Suc_eq_le)

text \<open>\<^verbatim>\<open>.replace(/[^\w-]/g, "")\<close>.\<close>

definition strip_unsafe :: "string \<Rightarrow> string" where
  "strip_unsafe s = filter (\<lambda>c. is_word c \<or> c = CHR ''-'') s"

text \<open>\<^verbatim>\<open>String.prototype.toLowerCase\<close> on the code units below \<open>0x100\<close>: the ASCII capitals
  and the Latin-1 capitals \<open>0xC0\<close> to \<open>0xDE\<close> (without the multiplication sign \<open>0xD7\<close>) move up
  by \<open>0x20\<close>; every other code unit stays.\<close>

definition upper_chars :: "char list" where
  "upper_chars = ''ABCDEFGHIJKLMNOPQRSTUVWXYZ'' @
     [CHR 0xC0, CHR 0xC1, CHR 0xC2, CHR 0xC3, CHR 0xC4, CHR 0xC5, CHR 0xC6, CHR 0xC7,
      CHR 0xC8, CHR 0xC9, CHR 0xCA, CHR 0xCB, CHR 0xCC, CHR 0xCD, CHR 0xCE, CHR 0xCF,
      CHR 0xD0, CHR 0xD1, CHR 0xD2, CHR 0xD3, CHR 0xD4, CHR 0xD5, CHR 0xD6, CHR 0xD8,
      CHR 0xD9, CHR 0xDA, CHR 0xDB, CHR 0xDC, CHR 0xDD, CHR 0xDE]"

definition lower_chars :: "char list" where
  "lower_chars = ''abcdefghijklmnopqrstuvwxyz'' @
     [CHR 0xE0, CHR 0xE1, CHR 0xE2, CHR 0xE3, CHR 0xE4, CHR 0xE5, CHR 0xE6, CHR 0xE7,
      CHR 0xE8, CHR 0xE9, CHR 0xEA, CHR 0xEB, CHR 0xEC, CHR 0xED, CHR 0xEE, CHR 0xEF,
      CHR 0xF0, CHR 0xF1, CHR 0xF2, CHR 0xF3, CHR 0xF4, CHR 0xF5, CHR 0xF6, CHR 0xF8,
      CHR 0xF9, CHR 0xFA, CHR 0xFB, CHR 0xFC, CHR 0xFD, CHR 0xFE]"

definition toLowerCase_char :: "char \<Rightarrow> char" where
  "toLowerCase_char c = (case map_of (zip upper_chars lower_chars) c of Some l \<Rightarrow> l | None \<Rightarrow> c)"

definition toLowerCase :: "string \<Rightarrow> string" where
  "toLowerCase s = map toLowerCase_char s"

text \<open>The identifier derived from a heading's text (lines 95 to 99): trim, collapse
  whitespace, strip, lowercase, in this order.\<close>

definition slugify :: "string \<Rightarrow> string" where
  "slugify s = toLowerCase (strip_unsafe (replace_ws (trim s)))"

text \<open>A template literal prints a number in decimal.\<close>

fun show_nat :: "nat \<Rightarrow> string" where
  "show_nat n =
     (if n < 10 then [''0123456789'' ! n]
      else show_nat (n div 10) @ [''0123456789'' ! (n mod 10)])"

declare show_nat.simps [simp del]

subsection \<open>The DOM\<close>

record attrs =
  ident :: string
  classes :: "string list"
  style :: "(string \<times> string) list"
  href :: "string option"

datatype node = Text string | Elem (tag: string) (attr: attrs) (kids: "node list")

text \<open>\<^verbatim>\<open>document.createElement\<close>: an element with no id, class, style or children.\<close>

definition no_attrs :: attrs where
  "no_attrs = \<lparr>ident = [], classes = [], style = [], href = None\<rparr>"

text \<open>\<^verbatim>\<open>node.textContent\<close> (getter): the text of all descendant text nodes, in document order.\<close>

fun text_content :: "node \<Rightarrow> string" where
  "text_content (Text s) = s"
| "text_content (Elem t a ks) = concat (map text_content ks)"

text \<open>\<^verbatim>\<open>el.textContent = s\<close> (setter): the children become one text node, or none for
  the empty string.\<close>

definition set_text :: "string \<Rightarrow> node list" where
  "set_text s = (if s = [] then [] else [Text s])"

text \<open>\<^verbatim>\<open>classList.add\<close> of one token.\<close>

definition add_class :: "string \<Rightarrow> attrs \<Rightarrow> attrs" where
  "add_class c a = (if c \<in> set (classes a) then a else a\<lparr>classes := classes a @ [c]\<rparr>)"

text \<open>
  \<^verbatim>\<open>el.style.prop = v\<close>: the declaration is replaced in place, or appended. A
  declaration is kept under the property name the script assigns it to; what the browser
  does between a shorthand and its longhands is not modelled, and the script assigns no
  property that is a longhand of another it assigns.
\<close>

fun set_decl :: "string \<Rightarrow> string \<Rightarrow> (string \<times> string) list \<Rightarrow> (string \<times> string) list" where
  "set_decl k v [] = [(k, v)]"
| "set_decl k v (p # ps) = (if fst p = k then (k, v) # ps else p # set_decl k v ps)"

definition set_style :: "string \<Rightarrow> string \<Rightarrow> attrs \<Rightarrow> attrs" where
  "set_style k v a = a\<lparr>style := set_decl k v (style a)\<rparr>"

text \<open>The elements of a subtree in document order (the order of \<^verbatim>\<open>querySelectorAll\<close>).\<close>

fun elements :: "node \<Rightarrow> node list" where
  "elements (Text s) = []"
| "elements (Elem t a ks) = Elem t a ks # concat (map elements ks)"

definition descendants :: "node list \<Rightarrow> node list" where
  "descendants ns = concat (map elements ns)"

subsection \<open>Step 3: mermaid blocks (lines 19 to 25)\<close>

text \<open>
  \<^verbatim>\<open>pre code.language-mermaid\<close> selects a \<^verbatim>\<open>code\<close> element of class
  \<^verbatim>\<open>language-mermaid\<close> below some \<^verbatim>\<open>pre\<close>. The flag says whether the node has a
  \<^verbatim>\<open>pre\<close> ancestor; the render target itself is taken to have none.
\<close>

definition mermaid_block :: "bool \<Rightarrow> node \<Rightarrow> bool" where
  "mermaid_block in_pre n =
     (case n of
        Text s \<Rightarrow> False
      | Elem t a ks \<Rightarrow> in_pre \<and> t = ''code'' \<and> ''language-mermaid'' \<in> set (classes a))"

definition mermaid_div :: "node \<Rightarrow> node" where
  "mermaid_div block = Elem ''div'' (add_class ''mermaid'' no_attrs) (set_text (text_content block))"

text \<open>
  Each selected block replaces its parent by the new \<^verbatim>\<open>div\<close>. An element with a selected
  child is therefore replaced by the \<^verbatim>\<open>div\<close> of its first selected child: once it is
  detached, \<^verbatim>\<open>replaceWith\<close> of a later selected child has no parent to work on, and
  replacements inside a detached subtree do not reach the document.
\<close>

fun convert_mermaid :: "bool \<Rightarrow> node \<Rightarrow> node" where
  "convert_mermaid in_pre (Text s) = Text s"
| "convert_mermaid in_pre (Elem t a ks) =
     (case find (mermaid_block (in_pre \<or> t = ''pre'')) ks of
        Some block \<Rightarrow> mermaid_div block
      | None \<Rightarrow> Elem t a (map (convert_mermaid (in_pre \<or> t = ''pre'')) ks))"

subsection \<open>Step 4: tables (lines 27 to 45)\<close>

definition style_table :: "attrs \<Rightarrow> attrs" where
  "style_table a =
     set_style ''width'' ''100%''
       (set_style ''margin'' ''1rem 0''
         (set_style ''border'' ''1px solid #d0d7de''
           (set_style ''borderCollapse'' ''collapse''
             (add_class ''table-hover''
               (add_class ''table-bordered''
                 (add_class ''table-striped''
                   (add_class ''table'' a)))))))"

definition style_cell :: "attrs \<Rightarrow> attrs" where
  "style_cell a = set_style ''padding'' ''6px 13px'' (set_style ''border'' ''1px solid #d0d7de'' a)"

definition shade :: "attrs \<Rightarrow> attrs" where
  "shade a = set_style ''backgroundColor'' ''#f6f8fa'' a"

text \<open>\<^verbatim>\<open>tbl.querySelectorAll('th, td')\<close>: all cells below the table.\<close>

fun style_cells :: "node \<Rightarrow> node" where
  "style_cells (Text s) = Text s"
| "style_cells (Elem t a ks) =
     Elem t (if t = ''th'' \<or> t = ''td'' then style_cell a else a) (map style_cells ks)"

text \<open>
  \<^verbatim>\<open>tbl.querySelectorAll('tr:nth-child(even)')\<close>: every \<^verbatim>\<open>tr\<close> below the table that is
  the second, fourth, ... element child of its parent. \<open>i\<close> is the position, counted from one
  and over element children only, of the next element of the list.
\<close>

fun shade_rows :: "nat \<Rightarrow> node list \<Rightarrow> node list" where
  "shade_rows i [] = []"
| "shade_rows i (Text s # ns) = Text s # shade_rows i ns"
| "shade_rows i (Elem t a ks # ns) =
     Elem t (if t = ''tr'' \<and> even i then shade a else a) (shade_rows 1 ks) # shade_rows (Suc i) ns"

text \<open>
  The loop over \<^verbatim>\<open>querySelectorAll('table')\<close>. A table inside a table is reached by both
  loops over cells and rows; every assignment writes a constant, so the order in which the
  tables are visited does not show in the result, and the nested tables are done first here.
\<close>

fun style_tables :: "node \<Rightarrow> node" where
  "style_tables (Text s) = Text s"
| "style_tables (Elem t a ks) =
     (if t = ''table''
      then Elem t (style_table a) (shade_rows 1 (map style_cells (map style_tables ks)))
      else Elem t a (map style_tables ks))"

subsection \<open>Step 7: heading identifiers and the table of contents (lines 58 to 127)\<close>

definition is_heading :: "node \<Rightarrow> bool" where
  "is_heading n =
     (case n of Text s \<Rightarrow> False | Elem t a ks \<Rightarrow> t = ''h1'' \<or> t = ''h2'' \<or> t = ''h3'')"

text \<open>\<^verbatim>\<open>markdownContainer.querySelectorAll("h1, h2, h3")\<close>.\<close>

definition headings :: "node list \<Rightarrow> node list" where
  "headings ns = filter is_heading (descendants ns)"

text \<open>\<^verbatim>\<open>h.id || h.textContent.trim()...\<close>: the empty string is falsy.\<close>

definition heading_id :: "node \<Rightarrow> string" where
  "heading_id h =
     (case h of
        Text s \<Rightarrow> []
      | Elem t a ks \<Rightarrow> if ident a \<noteq> [] then ident a else slugify (text_content h))"

text \<open>\<^verbatim>\<open>h.id = headingId\<close>, for every selected heading.\<close>

fun assign_ids :: "node \<Rightarrow> node" where
  "assign_ids (Text s) = Text s"
| "assign_ids (Elem t a ks) =
     Elem t (if is_heading (Elem t a ks) then a\<lparr>ident := heading_id (Elem t a ks)\<rparr> else a)
       (map assign_ids ks)"

text \<open>The \<^verbatim>\<open>li\<close> built for the heading \<open>h\<close> at index \<open>idx\<close> (lines 104 to 116).\<close>

definition toc_link :: "nat \<Rightarrow> node \<Rightarrow> node" where
  "toc_link idx h =
     Elem ''a''
       ((if idx = 0 then add_class ''active'' else id) (no_attrs\<lparr>href := Some (''#'' @ heading_id h)\<rparr>))
       (set_text (text_content h))"

definition toc_item :: "nat \<Rightarrow> node \<Rightarrow> node" where
  "toc_item idx h =
     Elem ''li'' ((if idx = 0 then add_class ''has-active'' else id) no_attrs) [toc_link idx h]"

definition build_toc :: "node list \<Rightarrow> node" where
  "build_toc hs = Elem ''ul'' no_attrs (map (\<lambda>(idx, h). toc_item idx h) (enumerate 0 hs))"

subsection \<open>The page, its environment and the promise chain\<close>

text \<open>
  A thrown value, by the name and the message of the error object; interpolating it into a
  template literal prints \<^verbatim>\<open>name: message\<close> (\<^verbatim>\<open>Error.prototype.toString\<close>).
\<close>

datatype exn = Exn (exn_name: string) (exn_message: string)

definition exn_to_string :: "exn \<Rightarrow> string" where
  "exn_to_string e =
     (if exn_name e = [] then exn_message e
      else if exn_message e = [] then exn_name e
      else exn_name e @ '': '' @ exn_message e)"

text \<open>
  What \<^verbatim>\<open>fetch\<close> settles with: a rejection, or a response with its \<^verbatim>\<open>ok\<close> flag, its
  status and the outcome of \<^verbatim>\<open>res.text()\<close>.
\<close>

datatype outcome = Rejected exn | Response (ok: bool) (status: nat) (body: "exn + string")

text \<open>A call into a library that is loaded: it returns or it throws.\<close>

datatype call = Returns | Throws exn

text \<open>
  The collaborators of the script, none of which is part of the repository: the network, the
  global \<^verbatim>\<open>marked\<close> (\<^verbatim>\<open>marked.parse\<close> followed by the browser's reading of the markup
  assigned to \<^verbatim>\<open>innerHTML\<close>), the global \<^verbatim>\<open>hljs\<close> (\<^verbatim>\<open>highlightAll\<close> as a function
  of the fragment), \<^verbatim>\<open>window.mermaid\<close> and \<^verbatim>\<open>window.MathJax\<close>. \<open>None\<close> is a library
  that is not loaded; \<open>Inl\<close> and \<open>Throws\<close> are calls that throw. What Mermaid and MathJax do
  to the page happens after the handler has run and is not modelled.
\<close>

record env =
  net :: "string \<Rightarrow> outcome"
  marked :: "(string \<Rightarrow> exn + node list) option"
  hljs :: "(node list \<Rightarrow> exn + node list) option"
  mermaid :: "call option"
  mathjax :: "call option"

text \<open>
  The content of the render target: the nodes of the rendered fragment, or the markup of the
  failure message as the \<^verbatim>\<open>.catch\<close> handler assigns it (nothing reads it afterwards).
\<close>

datatype content = Nodes "node list" | Markup string

record target =
  data_file :: "string option"
  inner :: content

text \<open>What the script invokes, in the order in which it does.\<close>

datatype event =
    Fetch string
  | MarkedParse
  | HighlightAll "node list"
  | MermaidConvert
  | TableStyling
  | MermaidRun
  | MathTypeset
  | TocGeneration

text \<open>
  The page: \<^verbatim>\<open>#markdown-container\<close> when there is one, whether \<^verbatim>\<open>#toc-content-auto\<close>
  exists, the children of \<^verbatim>\<open>#TableOfContents\<close> when it exists, and the invocations so
  far. The three elements are taken to be distinct and outside the rendered fragment.
\<close>

record page =
  container :: "target option"
  toc_auto :: bool
  toc_nav :: "node list option"
  trace :: "event list"

definition fragment :: "page \<Rightarrow> node list" where
  "fragment pg =
     (case container pg of
        None \<Rightarrow> []
      | Some c \<Rightarrow> (case inner c of Nodes ns \<Rightarrow> ns | Markup m \<Rightarrow> []))"

definition set_inner :: "content \<Rightarrow> page \<Rightarrow> page" where
  "set_inner x pg = pg\<lparr>container := map_option (\<lambda>c. c\<lparr>inner := x\<rparr>) (container pg)\<rparr>"

definition emit :: "event \<Rightarrow> page \<Rightarrow> page" where
  "emit e pg = pg\<lparr>trace := trace pg @ [e]\<rparr>"

text \<open>A statement of the callback: the exception it throws, if any, and the page it leaves.\<close>

type_synonym step = "page \<Rightarrow> exn option \<times> page"

definition seq :: "step \<Rightarrow> step \<Rightarrow> step" where
  "seq f g pg = (case f pg of (Some e, pg') \<Rightarrow> (Some e, pg') | (None, pg') \<Rightarrow> g pg')"

definition not_defined :: "string \<Rightarrow> exn" where
  "not_defined x = Exn ''ReferenceError'' (x @ '' is not defined'')"

text \<open>Step 1 (line 14).\<close>

definition render :: "env \<Rightarrow> string \<Rightarrow> step" where
  "render env md pg =
     (case marked env of
        None \<Rightarrow> (Some (not_defined ''marked''), pg)
      | Some parse \<Rightarrow>
          (case parse md of
             Inl e \<Rightarrow> (Some e, emit MarkedParse pg)
           | Inr html \<Rightarrow> (None, set_inner (Nodes html) (emit MarkedParse pg))))"

text \<open>Step 2 (line 17).\<close>

definition highlight :: "env \<Rightarrow> step" where
  "highlight env pg =
     (case hljs env of
        None \<Rightarrow> (Some (not_defined ''hljs''), pg)
      | Some highlightAll \<Rightarrow>
          (case highlightAll (fragment pg) of
             Inl e \<Rightarrow> (Some e, emit (HighlightAll (fragment pg)) pg)
           | Inr ns \<Rightarrow> (None, set_inner (Nodes ns) (emit (HighlightAll (fragment pg)) pg))))"

text \<open>Step 3 (lines 20 to 25).\<close>

definition convert_diagrams :: step where
  "convert_diagrams pg =
     (None, set_inner (Nodes (map (convert_mermaid False) (fragment pg))) (emit MermaidConvert pg))"

text \<open>Step 4 (lines 28 to 45).\<close>

definition style_all_tables :: step where
  "style_all_tables pg =
     (None, set_inner (Nodes (map style_tables (fragment pg))) (emit TableStyling pg))"

text \<open>Step 5 (lines 48 to 51).\<close>

definition run_mermaid :: "env \<Rightarrow> step" where
  "run_mermaid env pg =
     (case mermaid env of
        None \<Rightarrow> (None, pg)
      | Some Returns \<Rightarrow> (None, emit MermaidRun pg)
      | Some (Throws e) \<Rightarrow> (Some e, emit MermaidRun pg))"

text \<open>Step 6 (lines 54 to 56).\<close>

definition typeset :: "env \<Rightarrow> step" where
  "typeset env pg =
     (case mathjax env of
        None \<Rightarrow> (None, pg)
      | Some Returns \<Rightarrow> (None, emit MathTypeset pg)
      | Some (Throws e) \<Rightarrow> (Some e, emit MathTypeset pg))"

text \<open>Step 7 (lines 61 to 127).\<close>

definition generate_toc :: step where
  "generate_toc pg =
     (let pg1 = emit TocGeneration pg in
      if toc_auto pg1 \<and> container pg1 \<noteq> None then
        (case toc_nav pg1 of
           None \<Rightarrow> (None, pg1)
         | Some old \<Rightarrow>
             if headings (fragment pg1) \<noteq> [] then
               (None, (set_inner (Nodes (map assign_ids (fragment pg1))) pg1)
                  \<lparr>toc_nav := Some [build_toc (headings (fragment pg1))]\<rparr>)
             else (None, pg1))
      else (None, pg1))"

text \<open>The second \<^verbatim>\<open>.then\<close> callback (lines 12 to 131).\<close>

definition on_markdown :: "env \<Rightarrow> string \<Rightarrow> step" where
  "on_markdown env md =
     seq (render env md)
       (seq (highlight env)
         (seq convert_diagrams
           (seq style_all_tables
             (seq (run_mermaid env)
               (seq (typeset env) generate_toc)))))"

text \<open>The first \<^verbatim>\<open>.then\<close> callback (lines 8 to 11), with a rejected fetch passing through.\<close>

definition on_response :: "outcome \<Rightarrow> exn + string" where
  "on_response r =
     (case r of
        Rejected e \<Rightarrow> Inl e
      | Response k st b \<Rightarrow> if \<not> k then Inl (Exn ''Error'' (''HTTP '' @ show_nat st)) else b)"

text \<open>The \<^verbatim>\<open>.catch\<close> handler (lines 132 to 135).\<close>

definition failure_markup :: "exn \<Rightarrow> string" where
  "failure_markup e =
     ''<p style=\"color:red\">Failed to load markdown: '' @ exn_to_string e @ ''</p>''"

definition on_error :: "exn \<Rightarrow> page \<Rightarrow> page" where
  "on_error e pg = set_inner (Markup (failure_markup e)) pg"

text \<open>\<^verbatim>\<open>fetch(file)\<close> converts its argument to a string; a missing \<^verbatim>\<open>data-file\<close> reads as
  \<^verbatim>\<open>undefined\<close>.\<close>

definition request_url :: "string option \<Rightarrow> string" where
  "request_url file = (case file of None \<Rightarrow> ''undefined'' | Some f \<Rightarrow> f)"

text \<open>The \<^verbatim>\<open>DOMContentLoaded\<close> handler, run until the promise chain has settled.\<close>

definition on_load :: "env \<Rightarrow> page \<Rightarrow> page" where
  "on_load env pg =
     (case container pg of
        None \<Rightarrow> pg
      | Some c \<Rightarrow>
          (let pg1 = emit (Fetch (request_url (data_file c))) pg in
           case on_response (net env (request_url (data_file c))) of
             Inl e \<Rightarrow> on_error e pg1
           | Inr md \<Rightarrow>
               (case on_markdown env md pg1 of
                  (Some e, pg2) \<Rightarrow> on_error e pg2
                | (None, pg2) \<Rightarrow> pg2)))"

subsection \<open>Notions used in the statements\<close>

text \<open>A library call that does not throw: the library is missing, or its call returns.\<close>

definition quiet :: "call option \<Rightarrow> bool" where
  "quiet c = (case c of Some (Throws e) \<Rightarrow> False | _ \<Rightarrow> True)"

text \<open>The invocation recorded for an optional library: none when it is missing.\<close>

definition call_events :: "event \<Rightarrow> call option \<Rightarrow> event list" where
  "call_events ev c = (case c of None \<Rightarrow> [] | Some r \<Rightarrow> [ev])"

text \<open>The \<^verbatim>\<open>id\<close> of a node, and whether it is an element with a given tag.\<close>

definition ident_of :: "node \<Rightarrow> string" where
  "ident_of n = (case n of Text s \<Rightarrow> [] | Elem t a ks \<Rightarrow> ident a)"

definition tagged :: "string \<Rightarrow> node \<Rightarrow> bool" where
  "tagged t n = (case n of Text s \<Rightarrow> False | Elem t' a ks \<Rightarrow> t' = t)"

text \<open>The \<^verbatim>\<open>href\<close> attributes of the links of a fragment, in document order.\<close>

definition href_of :: "node \<Rightarrow> string" where
  "href_of n =
     (case n of Text s \<Rightarrow> [] | Elem t a ks \<Rightarrow> (case href a of None \<Rightarrow> [] | Some u \<Rightarrow> u))"

definition link_targets :: "node list \<Rightarrow> string list" where
  "link_targets ns = map href_of (filter (tagged ''a'') (descendants ns))"

text \<open>The identifiers of the headings of the render target, and the link targets of the
  navigation target, both in document order.\<close>

definition heading_idents :: "page \<Rightarrow> string list" where
  "heading_idents pg = map ident_of (headings (fragment pg))"

definition nav_links :: "page \<Rightarrow> string list" where
  "nav_links pg = (case toc_nav pg of None \<Rightarrow> [] | Some ns \<Rightarrow> link_targets ns)"

text \<open>The background declared on each row of a fragment, in document order.\<close>

definition background :: "node \<Rightarrow> string option" where
  "background n = (case n of Text s \<Rightarrow> None | Elem t a ks \<Rightarrow> map_of (style a) ''backgroundColor'')"

definition row_backgrounds :: "node list \<Rightarrow> string option list" where
  "row_backgrounds ns = map background (filter (tagged ''tr'') (descendants ns))"

text \<open>The page with the \<^verbatim>\<open>data-file\<close> attribute of its render target set, or removed.\<close>

definition with_file :: "string option \<Rightarrow> page \<Rightarrow> page" where
  "with_file f pg = pg\<lparr>container := map_option (\<lambda>c. c\<lparr>data_file := f\<rparr>) (container pg)\<rparr>"

text \<open>
  The children of a row group as the browser builds them from markup: rows, and the text
  between them.
\<close>

definition rows_only :: "node list \<Rightarrow> bool" where
  "rows_only ns = list_all (\<lambda>n. case n of Text s \<Rightarrow> True | Elem t a ks \<Rightarrow> t = ''tr'') ns"

subsection \<open>The slug in the words of the specification\<close>

text \<open>The slug as the specification words it: the text lowercased, its whitespace runs
  collapsed to one separator, and every character that is neither alphanumeric nor the
  separator stripped.\<close>

definition is_alnum :: "char \<Rightarrow> bool" where
  "is_alnum c = (let n = (of_char c :: nat) in
     (48 \<le> n \<and> n \<le> 57) \<or> (65 \<le> n \<and> n \<le> 90) \<or> (97 \<le> n \<and> n \<le> 122))"

definition claimed_slug :: "string \<Rightarrow> string" where
  "claimed_slug s = filter (\<lambda>c. is_alnum c \<or> c = CHR ''-'') (replace_ws (toLowerCase s))"

text \<open>The slug word by word: the words of the text are its maximal runs of characters
  that are not whitespace; they are joined by single hyphens, and then everything but
  letters, digits, underscores and hyphens is stripped and the rest is lowercased.\<close>

function ws_words :: "string \<Rightarrow> string list" where
  "ws_words s =
     (case dropWhile is_space s of
        [] \<Rightarrow> []
      | c # cs \<Rightarrow> (c # takeWhile (\<lambda>x. \<not> is_space x) cs)
                   # ws_words (dropWhile (\<lambda>x. \<not> is_space x) cs))"
  by pat_completeness auto
termination
proof (relation "measure length")
  show "wf (measure length)" by simp
next
  fix s :: string and c cs
  assume "dropWhile is_space s = c # cs"
  then have "Suc (length cs) \<le> length s"
    using length_dropWhile_le [of is_space s] by simp
  moreover have "length (dropWhile (\<lambda>x. \<not> is_space x) cs) \<le> length cs"
    by (rule length_dropWhile_le)
  ultimately show "(dropWhile (\<lambda>x. \<not> is_space x) cs, s) \<in> measure length"
    by simp
qed

declare ws_words.simps [simp del]

fun join_hyphen :: "string list \<Rightarrow> string" where
  "join_hyphen [] = []"
| "join_hyphen [w] = w"
| "join_hyphen (w # v # ws) = w @ CHR ''-'' # join_hyphen (v # ws)"

definition slug_by_words :: "string \<Rightarrow> string" where
  "slug_by_words s = toLowerCase (strip_unsafe (join_hyphen (ws_words s)))"

subsection \<open>Table styling, element by element\<close>

text \<open>
  What step 4 comes to for each element of the fragment, in one pass: a table gets the table
  classes and declarations; a cell below a table gets the cell declarations; a row below a
  table that is the second, fourth, ... element child of its parent gets the shade; every
  other element, the first row of each row group among them, keeps its attributes.
  \<open>inside\<close> says whether the list lies below a table, \<open>i\<close> is the position of its next
  element.
\<close>

fun restyle :: "bool \<Rightarrow> nat \<Rightarrow> node list \<Rightarrow> node list" where
  "restyle inside i [] = []"
| "restyle inside i (Text s # ns) = Text s # restyle inside i ns"
| "restyle inside i (Elem t a ks # ns) =
     Elem t
       (if t = ''table'' then style_table a
        else if inside \<and> (t = ''th'' \<or> t = ''td'') then style_cell a
        else if inside \<and> t = ''tr'' \<and> even i then shade a
        else a)
       (restyle (inside \<or> t = ''table'') 1 ks)
     # restyle inside (Suc i) ns"

subsection \<open>Example pages and collaborators\<close>

text \<open>A page with the render target, the navigation target and nothing rendered yet.\<close>

definition blank_page :: "string option \<Rightarrow> page" where
  "blank_page file =
     \<lparr>container = Some \<lparr>data_file = file, inner = Nodes []\<rparr>,
      toc_auto = True, toc_nav = Some [], trace = []\<rparr>"

definition serves :: "string \<Rightarrow> string \<Rightarrow> outcome" where
  "serves md url = Response True 200 (Inr md)"

definition not_found :: "string \<Rightarrow> outcome" where
  "not_found url = Response False 404 (Inr ''Not Found'')"

definition renders_as :: "node list \<Rightarrow> string \<Rightarrow> exn + node list" where
  "renders_as ns md = Inr ns"

definition leaves_as_is :: "node list \<Rightarrow> exn + node list" where
  "leaves_as_is ns = Inr ns"

definition no_highlightAll :: "node list \<Rightarrow> exn + node list" where
  "no_highlightAll ns = Inl (Exn ''TypeError'' ''hljs.highlightAll is not a function'')"

text \<open>A browser with Marked and highlight.js loaded, and neither Mermaid nor MathJax.\<close>

definition browser :: "(string \<Rightarrow> outcome) \<Rightarrow> node list \<Rightarrow> env" where
  "browser server ns =
     \<lparr>net = server, marked = Some (renders_as ns), hljs = Some leaves_as_is,
      mermaid = None, mathjax = None\<rparr>"



section \<open>Properties\<close>

lemmas step_defs = render_def highlight_def convert_diagrams_def style_all_tables_def
  run_mermaid_def typeset_def seq_def emit_def set_inner_def fragment_def

lemmas example_defs = blank_page_def serves_def not_found_def renders_as_def leaves_as_is_def
  no_highlightAll_def browser_def

subsection \<open>The promise chain\<close>

lemma on_load_no_container: "container pg = None \<Longrightarrow> on_load env pg = pg"
  by (simp add: on_load_def)

lemma on_load_failure:
  assumes "container pg = Some c"
    and "on_response (net env (request_url (data_file c))) = Inl e"
  shows "on_load env pg =
    pg\<lparr>container := Some (c\<lparr>inner := Markup (failure_markup e)\<rparr>),
       trace := trace pg @ [Fetch (request_url (data_file c))]\<rparr>"
  using assms by (simp add: on_load_def on_error_def emit_def set_inner_def)

lemma generate_toc_returns: "generate_toc pg = (None, snd (generate_toc pg))"
  by (simp add: generate_toc_def Let_def split: option.splits)

lemma catch_generate_toc:
  "(case generate_toc pg of (None, pg2) \<Rightarrow> pg2 | (Some e, pg2) \<Rightarrow> on_error e pg2) =
     snd (generate_toc pg)"
  using generate_toc_returns [of pg] by (cases "generate_toc pg") auto

lemma page_updates:
  "pg\<lparr>container := x, trace := t\<rparr> =
     \<lparr>container = x, toc_auto = toc_auto pg, toc_nav = toc_nav pg, trace = t\<rparr>"
  "pg\<lparr>trace := t, container := x\<rparr> =
     \<lparr>container = x, toc_auto = toc_auto pg, toc_nav = toc_nav pg, trace = t\<rparr>"
  by (cases pg; simp)+

lemma on_load_success:
  assumes "container pg = Some c"
    and "on_response (net env (request_url (data_file c))) = Inr md"
    and "marked env = Some parse" and "parse md = Inr html"
    and "hljs env = Some hl" and "hl html = Inr ns"
    and "quiet (mermaid env)" and "quiet (mathjax env)"
  shows "on_load env pg =
    snd (generate_toc
      \<lparr>container = Some (c\<lparr>inner := Nodes (map style_tables (map (convert_mermaid False) ns))\<rparr>),
       toc_auto = toc_auto pg, toc_nav = toc_nav pg,
       trace = trace pg @ [Fetch (request_url (data_file c)), MarkedParse, HighlightAll html,
                  MermaidConvert, TableStyling]
                @ call_events MermaidRun (mermaid env) @ call_events MathTypeset (mathjax env)\<rparr>)"
proof -
  let ?pg6 = "\<lparr>container = Some (c\<lparr>inner := Nodes (map style_tables (map (convert_mermaid False) ns))\<rparr>),
       toc_auto = toc_auto pg, toc_nav = toc_nav pg,
       trace = trace pg @ [Fetch (request_url (data_file c)), MarkedParse, HighlightAll html,
                  MermaidConvert, TableStyling]
                @ call_events MermaidRun (mermaid env) @ call_events MathTypeset (mathjax env)\<rparr>"
  have six: "on_markdown env md (emit (Fetch (request_url (data_file c))) pg) = generate_toc ?pg6"
    using assms
    by (auto simp: on_markdown_def step_defs quiet_def call_events_def page_updates
          split: option.splits call.splits)
  show ?thesis
    using assms(1,2) by (simp add: on_load_def Let_def six catch_generate_toc)
qed

lemma generate_toc_trace: "trace (snd (generate_toc pg)) = trace pg @ [TocGeneration]"
  by (simp add: generate_toc_def Let_def emit_def set_inner_def split: option.splits)

lemma on_error_fields:
  "trace (on_error e pg) = trace pg" "toc_nav (on_error e pg) = toc_nav pg"
  "toc_auto (on_error e pg) = toc_auto pg"
  "container (on_error e pg) = map_option (\<lambda>c. c\<lparr>inner := Markup (failure_markup e)\<rparr>) (container pg)"
  by (simp_all add: on_error_def set_inner_def)

lemma on_markdown_trace: "\<exists>evs. trace (snd (on_markdown env md pg)) = trace pg @ evs"
  by (auto simp: on_markdown_def step_defs generate_toc_def Let_def
        split: option.splits call.splits sum.splits)

lemma on_markdown_throws:
  assumes "on_markdown env md pg = (Some e, pg2)"
  shows "toc_nav pg2 = toc_nav pg" and "toc_auto pg2 = toc_auto pg"
    and "\<exists>evs. trace pg2 = trace pg @ evs \<and> TocGeneration \<notin> set evs"
  using assms
  by (auto simp: on_markdown_def step_defs generate_toc_def Let_def
        split: option.splits call.splits sum.splits if_splits)

lemma on_markdown_container:
  assumes "on_markdown env md pg = (r, pg2)" and "container pg = Some c"
  shows "\<exists>x. container pg2 = Some (c\<lparr>inner := x\<rparr>)"
proof -
  have same: "\<exists>x. c = c\<lparr>inner := x\<rparr>"
    by (rule exI [of _ "inner c"]) simp
  show ?thesis
    using assms
    by (auto simp: on_markdown_def step_defs generate_toc_def Let_def same
          split: option.splits call.splits sum.splits if_splits)
qed

lemma on_load_success_trace:
  assumes "container pg = Some c"
    and "on_response (net env (request_url (data_file c))) = Inr md"
    and "marked env = Some parse" and "parse md = Inr html"
    and "hljs env = Some hl" and "hl html = Inr ns"
    and "quiet (mermaid env)" and "quiet (mathjax env)"
  shows "trace (on_load env pg) =
           trace pg @ [Fetch (request_url (data_file c)), MarkedParse, HighlightAll html,
                       MermaidConvert, TableStyling]
             @ call_events MermaidRun (mermaid env) @ call_events MathTypeset (mathjax env)
             @ [TocGeneration]"
  by (simp add: on_load_success [OF assms] generate_toc_trace)

lemma generate_toc_fragment:
  "fragment (snd (generate_toc pg)) =
     (if toc_auto pg \<and> container pg \<noteq> None \<and> toc_nav pg \<noteq> None \<and> headings (fragment pg) \<noteq> []
      then map assign_ids (fragment pg) else fragment pg)"
  by (auto simp: generate_toc_def Let_def emit_def set_inner_def fragment_def split: option.splits)

subsection \<open>Step 3\<close>


subsection \<open>Step 4\<close>

lemma map_of_set_decl: "map_of (set_decl k v st) = (map_of st)(k \<mapsto> v)"
  by (induction st) (auto simp: fun_eq_iff)

lemma set_decl_same: "map_of st k = Some v \<Longrightarrow> set_decl k v st = st"
  by (induction st) (auto split: if_splits)

lemma style_cell_idem: "style_cell (style_cell a) = style_cell a"
  by (simp add: style_cell_def set_style_def set_decl_same map_of_set_decl)

lemma shade_idem: "shade (shade a) = shade a"
  by (simp add: shade_def set_style_def set_decl_same map_of_set_decl)

lemma style_cells_idem: "style_cells (style_cells n) = style_cells n"
proof (induction n)
  case (Text s)
  show ?case by simp
next
  case (Elem t a ks)
  have "map (style_cells \<circ> style_cells) ks = map style_cells ks"
    using Elem.IH by (induction ks) simp_all
  then show ?case
    by (simp add: style_cell_idem)
qed

lemma shade_rows_idem: "shade_rows i (shade_rows i ns) = shade_rows i ns"
  by (induction i ns rule: shade_rows.induct) (simp_all add: shade_idem)

lemma style_cells_shade_rows:
  "map style_cells (shade_rows i ns) = shade_rows i (map style_cells ns)"
  by (induction i ns rule: shade_rows.induct) simp_all

lemma restyle_inside_idem:
  "shade_rows i (map style_cells (shade_rows i (map style_cells ns))) = shade_rows i (map style_cells ns)"
proof -
  have "map style_cells (map style_cells ns) = map style_cells ns"
    by (induction ns) (simp_all add: style_cells_idem)
  then show ?thesis
    by (simp only: style_cells_shade_rows shade_rows_idem)
qed

lemma style_tables_restyle:
  "(if inside then shade_rows i (map style_cells (map style_tables ns)) else map style_tables ns)
     = restyle inside i ns"
proof (induction inside i ns rule: restyle.induct)
  case (1 inside i)
  show ?case by simp
next
  case (2 inside i s ns)
  then show ?case by (simp split: if_splits)
next
  case (3 inside i t a ks ns)
  have tail: "(if inside then shade_rows (Suc i) (map style_cells (map style_tables ns))
               else map style_tables ns) = restyle inside (Suc i) ns"
    by (rule "3.IH"(2))
  have kids: "(if inside \<or> t = ''table'' then shade_rows 1 (map style_cells (map style_tables ks))
               else map style_tables ks) = restyle (inside \<or> t = ''table'') 1 ks"
    by (rule "3.IH"(1))
  show ?case
  proof (cases "t = ''table''")
    case True
    with kids have k: "shade_rows 1 (map style_cells (map style_tables ks)) = restyle True 1 ks"
      by simp
    have "shade_rows 1 (map style_cells (shade_rows 1 (map style_cells (map style_tables ks))))
            = restyle True 1 ks"
      unfolding restyle_inside_idem by (rule k)
    with True tail k show ?thesis
      by (cases inside) simp_all
  next
    case False
    with tail kids show ?thesis
      by (cases inside) auto
  qed
qed

subsection \<open>Slugs\<close>

lemma filter_dropWhile_neg: "filter (\<lambda>c. \<not> P c) (dropWhile P xs) = filter (\<lambda>c. \<not> P c) xs"
  by (induction xs) simp_all

lemma nonspace_dropWhile:
  "{c \<in> set (dropWhile is_space cs). \<not> is_space c} = {c \<in> set cs. \<not> is_space c}"
  using filter_dropWhile_neg [of is_space cs, THEN arg_cong, of set] by simp

lemma set_replace_ws:
  "set (replace_ws s) =
     {c \<in> set s. \<not> is_space c} \<union> (if \<exists>c \<in> set s. is_space c then {CHR ''-''} else {})"
proof (induction s rule: replace_ws.induct)
  case 1
  show ?case by simp
next
  case (2 c cs)
  show ?case
  proof (cases "is_space c")
    case True
    with 2 nonspace_dropWhile [of cs] show ?thesis by auto
  next
    case False
    with 2 show ?thesis by auto
  qed
qed

lemma slugify_empty_iff:
  "slugify t = [] \<longleftrightarrow> (\<forall>c \<in> set (trim t). \<not> is_word c \<and> c \<noteq> CHR ''-'' \<and> \<not> is_space c)"
proof -
  have "slugify t = [] \<longleftrightarrow> (\<forall>c \<in> set (replace_ws (trim t)). \<not> (is_word c \<or> c = CHR ''-''))"
    by (simp add: slugify_def toLowerCase_def strip_unsafe_def filter_empty_conv)
  also have "\<dots> \<longleftrightarrow> (\<forall>c \<in> set (trim t). \<not> is_word c \<and> c \<noteq> CHR ''-'' \<and> \<not> is_space c)"
    unfolding set_replace_ws by auto
  finally show ?thesis .
qed

lemma ws_words_Nil [simp]: "ws_words [] = []"
  by (simp add: ws_words.simps)

lemma ws_words_spaces:
  assumes "\<forall>c \<in> set s. is_space c"
  shows "ws_words s = []"
proof -
  from assms have "dropWhile is_space s = []"
    by simp
  then show ?thesis
    by (subst ws_words.simps) (simp only: list.case)
qed

lemma ws_words_word:
  "\<not> is_space c \<Longrightarrow>
     ws_words (c # cs) = (c # takeWhile (\<lambda>x. \<not> is_space x) cs)
                           # ws_words (dropWhile (\<lambda>x. \<not> is_space x) cs)"
  by (subst ws_words.simps) simp

lemma ws_words_dropWhile: "ws_words (dropWhile is_space s) = ws_words s"
  by (subst ws_words.simps, subst (2) ws_words.simps) simp

lemma replace_ws_word: "\<forall>c \<in> set w. \<not> is_space c \<Longrightarrow> replace_ws (w @ r) = w @ replace_ws r"
  by (induction w) simp_all

lemma ws_words_trailing:
  assumes "\<forall>c \<in> set sp. is_space c"
  shows "ws_words (s @ sp) = ws_words s"
proof (induction s rule: ws_words.induct)
  case (1 s)
  show ?case
  proof (cases "dropWhile is_space s")
    case Nil
    then have s: "\<forall>c \<in> set s. is_space c"
      by simp
    with assms have "\<forall>c \<in> set (s @ sp). is_space c"
      by auto
    then have "ws_words (s @ sp) = []"
      by (rule ws_words_spaces)
    moreover from s have "ws_words s = []"
      by (rule ws_words_spaces)
    ultimately show ?thesis by simp
  next
    case (Cons c cs)
    then have c: "\<not> is_space c"
      using hd_dropWhile [of is_space s] by simp
    from Cons have "c \<in> set s"
      using set_dropWhileD [of c is_space s] by simp
    with c have front: "dropWhile is_space (s @ sp) = c # (cs @ sp)"
      using Cons by (simp add: dropWhile_append1)
    have left: "ws_words (s @ sp) = ws_words (c # (cs @ sp))"
      using ws_words_dropWhile [of "s @ sp"] front by simp
    have right: "ws_words s = ws_words (c # cs)"
      using ws_words_dropWhile [of s] Cons by simp
    show ?thesis
    proof (cases "\<forall>x \<in> set cs. \<not> is_space x")
      case True
      have sp1: "takeWhile (\<lambda>x. \<not> is_space x) sp = []"
        and sp2: "dropWhile (\<lambda>x. \<not> is_space x) sp = sp"
        using assms by (cases sp; simp)+
      from True have tw1: "takeWhile (\<lambda>x. \<not> is_space x) (cs @ sp) = cs"
        and dw1: "dropWhile (\<lambda>x. \<not> is_space x) (cs @ sp) = sp"
        by (simp_all add: takeWhile_append2 dropWhile_append2 sp1 sp2)
      from True have tw2: "takeWhile (\<lambda>x. \<not> is_space x) cs = cs"
        and dw2: "dropWhile (\<lambda>x. \<not> is_space x) cs = []"
        by simp_all
      have "ws_words (c # (cs @ sp)) = (c # cs) # ws_words sp"
        by (simp only: ws_words_word [OF c] tw1 dw1)
      moreover have "ws_words (c # cs) = (c # cs) # ws_words []"
        by (simp only: ws_words_word [OF c] tw2 dw2)
      moreover have "ws_words sp = []"
        using assms by (rule ws_words_spaces)
      ultimately show ?thesis
        unfolding left right by simp
    next
      case False
      then obtain x where x: "x \<in> set cs" "\<not> \<not> is_space x"
        by blast
      then have "takeWhile (\<lambda>x. \<not> is_space x) (cs @ sp) = takeWhile (\<lambda>x. \<not> is_space x) cs"
        and "dropWhile (\<lambda>x. \<not> is_space x) (cs @ sp) = dropWhile (\<lambda>x. \<not> is_space x) cs @ sp"
        by (simp_all add: takeWhile_append1 dropWhile_append1)
      then show ?thesis
        unfolding left right using "1.IH" [OF Cons] by (simp add: ws_words_word [OF c])
    qed
  qed
qed

lemma join_hyphen_Cons: "vs \<noteq> [] \<Longrightarrow> join_hyphen (w # vs) = w @ CHR ''-'' # join_hyphen vs"
  by (cases vs) simp_all

lemma replace_ws_tight:
  assumes "s = [] \<or> (\<not> is_space (hd s) \<and> \<not> is_space (last s))"
  shows "replace_ws s = join_hyphen (ws_words s)"
  using assms
proof (induction "length s" arbitrary: s rule: less_induct)
  case less
  show ?case
  proof (cases s)
    case Nil
    then show ?thesis by simp
  next
    case (Cons c cs)
    with less.prems have c: "\<not> is_space c" and l: "\<not> is_space (last s)"
      by simp_all
    let ?w = "c # takeWhile (\<lambda>x. \<not> is_space x) cs"
    let ?r = "dropWhile (\<lambda>x. \<not> is_space x) cs"
    have s: "s = ?w @ ?r"
      using Cons by simp
    have w: "\<forall>x \<in> set ?w. \<not> is_space x"
      using c by (auto dest: set_takeWhileD)
    have words: "ws_words s = ?w # ws_words ?r"
      unfolding Cons by (rule ws_words_word [OF c])
    have repl: "replace_ws s = ?w @ replace_ws ?r"
      by (subst s) (rule replace_ws_word [OF w])
    show ?thesis
    proof (cases ?r)
      case Nil
      show ?thesis
        unfolding words repl Nil by simp
    next
      case r: (Cons d ds)
      then have d: "is_space d"
        using hd_dropWhile [of "\<lambda>x. \<not> is_space x" cs] by simp
      let ?r' = "dropWhile is_space ds"
      have r': "dropWhile is_space ?r = ?r'"
        using r d by simp
      have "last s = last (?w @ ?r)"
        by (subst s) (rule refl)
      also have "\<dots> = last ?r"
        using r by (simp only: last_appendR list.distinct not_False_eq_True)
      finally have "last s = last ?r" .
      with l have lr: "\<not> is_space (last ?r)"
        by simp
      have "last ?r \<in> set ?r"
        using r by (intro last_in_set) simp
      with lr have ne: "?r' \<noteq> []"
        unfolding r' [symmetric] by (auto simp: dropWhile_eq_Nil_conv)
      have "last ?r = last (takeWhile is_space ?r @ dropWhile is_space ?r)"
        by (simp only: takeWhile_dropWhile_id)
      also have "\<dots> = last (dropWhile is_space ?r)"
        using ne r' by (intro last_appendR) simp
      also have "\<dots> = last ?r'"
        by (simp only: r')
      finally have "last ?r = last ?r'" .
      with lr have "\<not> is_space (last ?r')"
        by simp
      moreover have hd': "\<not> is_space (hd ?r')"
        using ne by (rule hd_dropWhile)
      moreover have "length ?r' < length s"
      proof -
        have "length ?r' \<le> length ds"
          by (rule length_dropWhile_le)
        moreover have "length s = length ?w + length ?r"
          by (subst s) (rule length_append)
        moreover have "length ?r = Suc (length ds)"
          using r by simp
        ultimately show ?thesis
          by linarith
      qed
      ultimately have ih: "replace_ws ?r' = join_hyphen (ws_words ?r')"
        using less.hyps by blast
      have "ws_words ?r' \<noteq> []"
        using ne hd' by (cases ?r') (simp_all add: ws_words_word)
      moreover have "ws_words ?r = ws_words ?r'"
        using ws_words_dropWhile [of ?r] r' by simp
      moreover have "replace_ws ?r = CHR ''-'' # replace_ws ?r'"
        using r d by simp
      ultimately show ?thesis
        by (simp add: words repl ih join_hyphen_Cons)
    qed
  qed
qed

lemma trim_tight: "trim s = [] \<or> (\<not> is_space (hd (trim s)) \<and> \<not> is_space (last (trim s)))"
proof (cases "trim s = []")
  case True
  then show ?thesis by simp
next
  case False
  let ?u = "dropWhile is_space s"
  let ?v = "dropWhile is_space (rev ?u)"
  from False have v: "?v \<noteq> []"
    by (simp add: trim_def)
  then have "\<not> is_space (hd ?v)"
    by (rule hd_dropWhile)
  then have last: "\<not> is_space (last (trim s))"
    using v by (simp add: trim_def last_rev)
  have u: "?u \<noteq> []"
  proof
    assume e: "?u = []"
    have "?v = []"
      unfolding e by simp
    with v show False
      by blast
  qed
  have "last (rev ?u) = last (takeWhile is_space (rev ?u) @ ?v)"
    by (simp only: takeWhile_dropWhile_id)
  also have "\<dots> = last ?v"
    using v by (rule last_appendR)
  finally have "last ?v = hd ?u"
    using u by (simp add: last_rev)
  moreover have "\<not> is_space (hd ?u)"
    using u by (rule hd_dropWhile)
  ultimately have "\<not> is_space (hd (trim s))"
    using v by (simp add: trim_def hd_rev)
  with last show ?thesis by simp
qed

lemma ws_words_trim: "ws_words (trim s) = ws_words s"
proof -
  let ?u = "dropWhile is_space s"
  let ?sp = "rev (takeWhile is_space (rev ?u))"
  have "trim s @ ?sp = rev (takeWhile is_space (rev ?u) @ dropWhile is_space (rev ?u))"
    by (simp only: trim_def rev_append)
  also have "\<dots> = ?u"
    by (simp only: takeWhile_dropWhile_id rev_rev_ident)
  finally have u: "?u = trim s @ ?sp"
    by (rule sym)
  have "\<forall>c \<in> set ?sp. is_space c"
    by (auto dest: set_takeWhileD)
  then have "ws_words (trim s @ ?sp) = ws_words (trim s)"
    by (rule ws_words_trailing)
  with u have "ws_words ?u = ws_words (trim s)"
    by simp
  then show ?thesis
    by (simp add: ws_words_dropWhile)
qed

lemma slugify_by_words: "slugify s = slug_by_words s"
  using replace_ws_tight [OF trim_tight, of s]
  by (simp add: slugify_def slug_by_words_def ws_words_trim)

subsection \<open>Step 7\<close>

lemma generate_toc_built:
  assumes "container pg = Some c" and "inner c = Nodes ns" and "toc_auto pg"
    and "toc_nav pg = Some old" and "headings ns \<noteq> []"
  shows "snd (generate_toc pg) =
           \<lparr>container = Some (c\<lparr>inner := Nodes (map assign_ids ns)\<rparr>), toc_auto = True,
            toc_nav = Some [build_toc (headings ns)], trace = trace pg @ [TocGeneration]\<rparr>"
  using assms by (cases pg) (simp add: generate_toc_def Let_def emit_def set_inner_def fragment_def)

lemma elements_set_text [simp]: "concat (map elements (set_text s)) = []"
  by (simp add: set_text_def)

lemma elements_assign_ids: "elements (assign_ids n) = map assign_ids (elements n)"
proof (induction n)
  case (Text s)
  show ?case by simp
next
  case (Elem t a ks)
  have "concat (map elements (map assign_ids ks)) = map assign_ids (concat (map elements ks))"
    using Elem.IH by (induction ks) simp_all
  then show ?case by simp
qed

lemma is_heading_assign_ids [simp]: "is_heading (assign_ids n) = is_heading n"
  by (cases n) (simp_all add: is_heading_def)

lemma text_content_assign_ids [simp]: "text_content (assign_ids n) = text_content n"
proof (induction n)
  case (Text s)
  show ?case by simp
next
  case (Elem t a ks)
  have eq: "map (text_content \<circ> assign_ids) ks = map text_content ks"
    using Elem.IH by (induction ks) simp_all
  show ?case by (simp add: eq)
qed

lemma headings_assign_ids: "headings (map assign_ids ns) = map assign_ids (headings ns)"
proof -
  have "descendants (map assign_ids ns) = map assign_ids (descendants ns)"
    unfolding descendants_def by (induction ns) (simp_all add: elements_assign_ids)
  then show ?thesis
    by (simp add: headings_def filter_map comp_def)
qed

lemma ident_of_assign_ids: "is_heading h \<Longrightarrow> ident_of (assign_ids h) = heading_id h"
  by (cases h) (simp_all add: ident_of_def is_heading_def)

lemma is_heading_headings: "h \<in> set (headings ns) \<Longrightarrow> is_heading h"
  by (simp add: headings_def)

lemma idents_assigned:
  "map ident_of (headings (map assign_ids ns)) = map heading_id (headings ns)"
  by (simp add: headings_assign_ids ident_of_assign_ids is_heading_headings)

lemma elements_toc_item: "elements (toc_item idx h) = [toc_item idx h, toc_link idx h]"
  by (simp add: toc_item_def toc_link_def)

lemma toc_item_tag [simp]:
  "tagged t (toc_item idx h) = (t = ''li'')" "tagged t (toc_link idx h) = (t = ''a'')"
  by (auto simp: toc_item_def toc_link_def tagged_def)

lemma href_of_toc_link [simp]: "href_of (toc_link idx h) = ''#'' @ heading_id h"
  by (simp add: toc_link_def href_of_def no_attrs_def add_class_def)

lemma toc_item_links:
  "map href_of (filter (tagged ''a'')
      (concat (map elements (map (\<lambda>(idx, h). toc_item idx h) (enumerate n hs)))))
     = map (\<lambda>h. ''#'' @ heading_id h) hs"
  by (induction hs arbitrary: n) (simp_all add: elements_toc_item)

lemma link_targets_toc:
  "link_targets [build_toc hs] = map (\<lambda>h. ''#'' @ heading_id h) hs"
  using toc_item_links [of 0 hs]
  by (simp add: link_targets_def descendants_def build_toc_def tagged_def)

lemma toc_idents:
  assumes "container pg = Some c" and "inner c = Nodes ns" and "toc_auto pg"
    and "toc_nav pg = Some old" and "headings ns \<noteq> []"
  shows "heading_idents (snd (generate_toc pg)) = map heading_id (headings ns)"
    and "nav_links (snd (generate_toc pg)) = map (\<lambda>h. ''#'' @ heading_id h) (headings ns)"
  by (simp_all add: generate_toc_built [OF assms] heading_idents_def nav_links_def fragment_def
        idents_assigned link_targets_toc)

lemma toc_items_li:
  "filter (tagged ''li'') (concat (map elements (map (\<lambda>(idx, h). toc_item idx h) (enumerate n hs))))
     = map (\<lambda>(idx, h). toc_item idx h) (enumerate n hs)"
  by (induction hs arbitrary: n) (simp_all add: elements_toc_item)

lemma toc_items_ul:
  "filter (tagged ''ul'') (concat (map elements (map (\<lambda>(idx, h). toc_item idx h) (enumerate n hs))))
     = []"
  by (induction hs arbitrary: n) (simp_all add: elements_toc_item)

subsection \<open>The document reference\<close>

lemma with_file_fields [simp]:
  "trace (with_file f pg) = trace pg" "toc_nav (with_file f pg) = toc_nav pg"
  "toc_auto (with_file f pg) = toc_auto pg" "fragment (with_file f pg) = fragment pg"
  "(container (with_file f pg) = None) = (container pg = None)"
  "(\<exists>y. container (with_file f pg) = Some y) = (\<exists>y. container pg = Some y)"
  by (auto simp: with_file_def fragment_def split: option.splits)

lemma with_file_emit: "emit ev (with_file f pg) = with_file f (emit ev pg)"
  by (simp add: emit_def with_file_def)

lemma with_file_set_inner: "set_inner x (with_file f pg) = with_file f (set_inner x pg)"
  by (cases "container pg") (simp_all add: set_inner_def with_file_def)

lemma with_file_on_error: "on_error e (with_file f pg) = with_file f (on_error e pg)"
  by (simp add: on_error_def with_file_set_inner)

lemma with_file_toc_nav: "(with_file f pg)\<lparr>toc_nav := n\<rparr> = with_file f (pg\<lparr>toc_nav := n\<rparr>)"
  by (simp add: with_file_def)

lemma with_file_generate_toc:
  "generate_toc (with_file f pg) = (fst (generate_toc pg), with_file f (snd (generate_toc pg)))"
  by (auto simp: generate_toc_def Let_def with_file_emit with_file_set_inner with_file_toc_nav
        split: option.splits)

lemma with_file_on_markdown:
  "on_markdown env md (with_file f pg) =
     (fst (on_markdown env md pg), with_file f (snd (on_markdown env md pg)))"
  by (simp add: on_markdown_def render_def highlight_def convert_diagrams_def style_all_tables_def
        run_mermaid_def typeset_def seq_def with_file_generate_toc
        with_file_emit with_file_set_inner
        split: option.splits call.splits sum.splits prod.splits)


lemma on_load_with_file:
  assumes "container pg = Some c"
  shows "on_load env pg =
           with_file (data_file c) (on_load env (with_file (Some (request_url (data_file c))) pg))"
proof -
  let ?u = "request_url (data_file c)"
  let ?pg1 = "emit (Fetch ?u) pg"
  have restore: "with_file (data_file c) (with_file f q) = q"
    if "container q = Some (c\<lparr>inner := x\<rparr>)" for f q x
    using that by (cases q) (simp add: with_file_def)
  have c1: "container ?pg1 = Some (c\<lparr>inner := inner c\<rparr>)"
    using assms by (simp add: emit_def)
  have err: "on_error e ?pg1 = with_file (data_file c) (on_error e (with_file (Some ?u) ?pg1))" for e
  proof -
    have "container (on_error e ?pg1) = Some (c\<lparr>inner := Markup (failure_markup e)\<rparr>)"
      using assms by (simp add: on_error_fields emit_def)
    from restore [OF this] show ?thesis
      by (simp add: with_file_on_error)
  qed
  have run: "(case on_markdown env md ?pg1 of (Some e, pg2) \<Rightarrow> on_error e pg2 | (None, pg2) \<Rightarrow> pg2) =
      with_file (data_file c)
        (case on_markdown env md (with_file (Some ?u) ?pg1) of
           (Some e, pg2) \<Rightarrow> on_error e pg2 | (None, pg2) \<Rightarrow> pg2)" for md
  proof (cases "on_markdown env md ?pg1")
    case (Pair r pg2)
    from on_markdown_container [OF Pair] c1 obtain x where x: "container pg2 = Some (c\<lparr>inner := x\<rparr>)"
      by auto
    show ?thesis
    proof (cases r)
      case None
      with Pair restore [OF x] show ?thesis
        by (simp add: with_file_on_markdown)
    next
      case (Some e)
      have "container (on_error e pg2) = Some (c\<lparr>inner := Markup (failure_markup e)\<rparr>)"
        using x by (simp add: on_error_fields)
      from restore [OF this] Pair Some show ?thesis
        by (simp add: with_file_on_markdown with_file_on_error)
    qed
  qed
  have "on_load env (with_file (Some ?u) pg) =
      (case on_response (net env ?u) of
         Inl e \<Rightarrow> on_error e (with_file (Some ?u) ?pg1)
       | Inr md \<Rightarrow>
           (case on_markdown env md (with_file (Some ?u) ?pg1) of
              (Some e, pg2) \<Rightarrow> on_error e pg2 | (None, pg2) \<Rightarrow> pg2))"
  proof -
    have cw: "container (with_file (Some ?u) pg) = Some (c\<lparr>data_file := Some ?u\<rparr>)"
      using assms by (simp add: with_file_def)
    have ru: "request_url (Some ?u) = ?u"
      by (simp add: request_url_def)
    show ?thesis
      by (simp add: on_load_def cw ru with_file_emit Let_def)
  qed
  then show ?thesis
    using assms err run by (simp add: on_load_def split: sum.splits)
qed

subsection \<open>Rows and declarations\<close>

lemma restyle_length: "length (restyle inside i ns) = length ns"
  by (induction inside i ns rule: restyle.induct) simp_all

lemma restyle_group:
  assumes "k < length ns" and "ns ! k = Elem t a ks"
    and "t \<noteq> ''table''" and "t \<noteq> ''th''" and "t \<noteq> ''td''" and "t \<noteq> ''tr''"
  shows "restyle True i ns ! k = Elem t a (restyle True 1 ks)"
  using assms
proof (induction ns arbitrary: i k)
  case Nil
  then show ?case by simp
next
  case (Cons n ns)
  show ?case
  proof (cases k)
    case 0
    with Cons.prems show ?thesis by simp
  next
    case (Suc k')
    with Cons.prems have "restyle True j ns ! k' = Elem t a (restyle True 1 ks)" for j
      using Cons.IH [of k' j] by simp
    with Suc show ?thesis
      by (cases n) simp_all
  qed
qed

lemma restyle_rows:
  assumes "rows_only rows"
  shows "length (filter (tagged ''tr'') (restyle True i rows)) = length (filter (tagged ''tr'') rows)"
    and "j < length (filter (tagged ''tr'') rows) \<Longrightarrow>
           attr (filter (tagged ''tr'') (restyle True i rows) ! j) =
             (if even (i + j) then shade (attr (filter (tagged ''tr'') rows ! j))
              else attr (filter (tagged ''tr'') rows ! j))"
  using assms
proof (induction rows arbitrary: i j)
  case Nil
  { case 1 show ?case by simp }
  { case 2 then show ?case by simp }
next
  case (Cons r rows)
  { case 1
    then show ?case
      using Cons.IH(1) by (cases r) (simp_all add: tagged_def rows_only_def) }
  { case 2
    then show ?case
      using Cons.IH(2) [of "j - 1" "Suc i"] Cons.IH(2) [of j i]
      by (cases r; cases j) (simp_all add: tagged_def rows_only_def) }
qed

lemma table_values:
  "map_of (style (style_table a)) ''borderCollapse'' = Some ''collapse''"
  "map_of (style (style_table a)) ''border'' = Some ''1px solid #d0d7de''"
  "map_of (style (style_table a)) ''margin'' = Some ''1rem 0''"
  "map_of (style (style_table a)) ''width'' = Some ''100%''"
  "set [''table'', ''table-striped'', ''table-bordered'', ''table-hover''] \<subseteq> set (classes (style_table a))"
  "map_of (style (style_cell a)) ''border'' = Some ''1px solid #d0d7de''"
  "map_of (style (style_cell a)) ''padding'' = Some ''6px 13px''"
  "map_of (style (shade a)) ''backgroundColor'' = Some ''#f6f8fa''"
  by (simp_all add: style_table_def style_cell_def shade_def set_style_def map_of_set_decl
        add_class_def)

section \<open>The specification, statement by statement\<close>

subsection \<open>C1: headings with the same text\<close>

text \<open>
  Nothing in step 7 looks at the identifiers already given out. Three headings of levels 1,
  2 and 3 with the text \<^verbatim>\<open>Title\<close> all get the identifier \<^verbatim>\<open>title\<close>, and the three
  entries of the table of contents all point to \<^verbatim>\<open>#title\<close>.
\<close>

theorem same_text_same_href:
  "nav_links (on_load
       (browser (serves ''three titles'')
          [Elem ''h1'' no_attrs [Text ''Title''], Elem ''h2'' no_attrs [Text ''Title''],
           Elem ''h3'' no_attrs [Text ''Title'']])
       (blank_page (Some ''post.md''))) = [''#title'', ''#title'', ''#title'']
   \<and> heading_idents (on_load
       (browser (serves ''three titles'')
          [Elem ''h1'' no_attrs [Text ''Title''], Elem ''h2'' no_attrs [Text ''Title''],
           Elem ''h3'' no_attrs [Text ''Title'']])
       (blank_page (Some ''post.md''))) = [''title'', ''title'', ''title'']"
  by code_simp

text \<open>
  C1, as the code has it. When step 7 builds a table of contents, every level-1/2/3 heading
  gets an identifier that depends on that heading alone: the identifier it carries, when
  that is not empty, and the slug of its text otherwise. The table of contents has one entry
  per heading, in document order, and the entry points to \<^verbatim>\<open>#\<close> followed by that
  identifier. In particular, when the headings have no identifier of their own and all
  have the same text, they all get the same identifier, the slug of that text, and all
  entries have the same target.
\<close>

theorem identifiers_not_disambiguated:
  assumes "container pg = Some c" and "inner c = Nodes ns" and "toc_auto pg"
    and "toc_nav pg = Some old" and "headings ns \<noteq> []"
  shows "heading_idents (snd (generate_toc pg)) =
           map (\<lambda>h. if ident_of h \<noteq> [] then ident_of h else slugify (text_content h)) (headings ns)
         \<and> nav_links (snd (generate_toc pg)) =
           map (\<lambda>h. ''#'' @ (if ident_of h \<noteq> [] then ident_of h else slugify (text_content h)))
             (headings ns)
         \<and> ((\<forall>h \<in> set (headings ns). ident_of h = [] \<and> text_content h = t) \<longrightarrow>
               heading_idents (snd (generate_toc pg)) = replicate (length (headings ns)) (slugify t)
               \<and> nav_links (snd (generate_toc pg)) =
                   replicate (length (headings ns)) (''#'' @ slugify t))"
proof -
  have own: "heading_id h = (if ident_of h \<noteq> [] then ident_of h else slugify (text_content h))"
    if "h \<in> set (headings ns)" for h
  proof -
    from that have "is_heading h"
      by (rule is_heading_headings)
    then show ?thesis
      by (cases h) (simp_all add: heading_id_def ident_of_def is_heading_def)
  qed
  have ids: "heading_idents (snd (generate_toc pg)) =
      map (\<lambda>h. if ident_of h \<noteq> [] then ident_of h else slugify (text_content h)) (headings ns)"
    using own by (simp add: toc_idents(1) [OF assms])
  have links: "nav_links (snd (generate_toc pg)) =
      map (\<lambda>h. ''#'' @ (if ident_of h \<noteq> [] then ident_of h else slugify (text_content h)))
        (headings ns)"
    using own by (simp add: toc_idents(2) [OF assms])
  have same: "heading_idents (snd (generate_toc pg)) = replicate (length (headings ns)) (slugify t)
      \<and> nav_links (snd (generate_toc pg)) = replicate (length (headings ns)) (''#'' @ slugify t)"
    if "\<forall>h \<in> set (headings ns). ident_of h = [] \<and> text_content h = t"
    using that unfolding ids links by (simp add: map_replicate_const [symmetric])
  from ids links same show ?thesis
    by blast
qed

theorem identifiers_not_disambiguated_witness:
  "heading_idents (snd (generate_toc
       \<lparr>container = Some \<lparr>data_file = Some ''post.md'',
          inner = Nodes [Elem ''h1'' no_attrs [Text ''Title''], Elem ''h2'' no_attrs [Text ''Title''],
                         Elem ''h3'' no_attrs [Text ''Title'']]\<rparr>,
        toc_auto = True, toc_nav = Some [], trace = []\<rparr>)) = [''title'', ''title'', ''title'']
   \<and> nav_links (snd (generate_toc
       \<lparr>container = Some \<lparr>data_file = Some ''post.md'',
          inner = Nodes [Elem ''h1'' no_attrs [Text ''Title''], Elem ''h2'' no_attrs [Text ''Title''],
                         Elem ''h3'' no_attrs [Text ''Title'']]\<rparr>,
        toc_auto = True, toc_nav = Some [], trace = []\<rparr>)) = [''#title'', ''#title'', ''#title'']"
proof -
  let ?ns = "[Elem ''h1'' no_attrs [Text ''Title''], Elem ''h2'' no_attrs [Text ''Title''],
              Elem ''h3'' no_attrs [Text ''Title'']]"
  let ?c = "\<lparr>data_file = Some ''post.md'', inner = Nodes ?ns\<rparr>"
  let ?pg = "\<lparr>container = Some ?c, toc_auto = True, toc_nav = Some [], trace = []\<rparr>"
  have hs: "headings ?ns = ?ns"
    by (simp add: headings_def descendants_def is_heading_def)
  have slug: "slugify ''Title'' = ''title''"
    by code_simp
  have all: "\<forall>h \<in> set (headings ?ns). ident_of h = [] \<and> text_content h = ''Title''"
    by (simp add: hs) (simp add: ident_of_def no_attrs_def)
  have "container ?pg = Some ?c" "inner ?c = Nodes ?ns" "toc_auto ?pg" "toc_nav ?pg = Some []"
    "headings ?ns \<noteq> []"
    by (simp_all add: hs)
  from identifiers_not_disambiguated [OF this, of "''Title''"] all
  have "heading_idents (snd (generate_toc ?pg)) = replicate (length (headings ?ns)) (slugify ''Title'')
      \<and> nav_links (snd (generate_toc ?pg)) = replicate (length (headings ?ns)) (''#'' @ slugify ''Title'')"
    by blast
  then show ?thesis
    by (simp add: hs slug)
qed

subsection \<open>C2: highlighting and diagram blocks\<close>




subsection \<open>C3: a step that throws\<close>

text \<open>
  The steps are statements of one callback, and the chain has one \<^verbatim>\<open>.catch\<close>. With a
  highlight.js that has no \<^verbatim>\<open>highlightAll\<close>, step 2 throws: neither the diagram
  conversion nor the table styling nor the table of contents runs, although the document has
  a heading, and the rendered fragment is replaced by the failure paragraph.
\<close>

theorem later_stages_skipped_after_throw:
  "on_load ((browser (serves ''# A'') [Elem ''h1'' no_attrs [Text ''A'']])\<lparr>hljs := Some no_highlightAll\<rparr>)
       (blank_page (Some ''post.md'')) =
     \<lparr>container = Some \<lparr>data_file = Some ''post.md'',
        inner = Markup ''<p style=\"color:red\">Failed to load markdown: TypeError: hljs.highlightAll is not a function</p>''\<rparr>,
      toc_auto = True, toc_nav = Some [],
      trace = [Fetch ''post.md'', MarkedParse, HighlightAll [Elem ''h1'' no_attrs [Text ''A'']]]\<rparr>"
  by (simp add: on_load_def on_response_def on_markdown_def step_defs on_error_def example_defs
        request_url_def exn_to_string_def failure_markup_def)

text \<open>
  C3, as the code has it. The diagram conversion, the table styling and the generation of
  the table of contents call no library and never throw. The steps that can throw are the
  rendering (Marked missing, or \<^verbatim>\<open>marked.parse\<close> throwing), the highlighting (highlight.js
  missing, or \<^verbatim>\<open>highlightAll\<close> throwing), the Mermaid call and the MathJax call. Whichever
  of them throws first, no later step runs: the invocations of the run are the fetch and
  the steps up to and including the one that threw, the content of the render target is
  the failure paragraph with the text of the exception, and the navigation target keeps
  what it had, so no table of contents is generated.
\<close>

theorem stage_failure_aborts:
  assumes "container pg = Some c"
    and "on_response (net env (request_url (data_file c))) = Inr md"
    and "marked env = None \<and> e = not_defined ''marked'' \<and> evs = []
       \<or> marked env = Some parse \<and> parse md = Inl e \<and> evs = [MarkedParse]
       \<or> marked env = Some parse \<and> parse md = Inr html \<and> hljs env = None
           \<and> e = not_defined ''hljs'' \<and> evs = [MarkedParse]
       \<or> marked env = Some parse \<and> parse md = Inr html \<and> hljs env = Some hl \<and> hl html = Inl e
           \<and> evs = [MarkedParse, HighlightAll html]
       \<or> marked env = Some parse \<and> parse md = Inr html \<and> hljs env = Some hl \<and> hl html = Inr ns
           \<and> mermaid env = Some (Throws e)
           \<and> evs = [MarkedParse, HighlightAll html, MermaidConvert, TableStyling, MermaidRun]
       \<or> marked env = Some parse \<and> parse md = Inr html \<and> hljs env = Some hl \<and> hl html = Inr ns
           \<and> quiet (mermaid env) \<and> mathjax env = Some (Throws e)
           \<and> evs = [MarkedParse, HighlightAll html, MermaidConvert, TableStyling]
                    @ call_events MermaidRun (mermaid env) @ [MathTypeset]"
  shows "on_load env pg =
           \<lparr>container = Some (c\<lparr>inner := Markup (failure_markup e)\<rparr>),
            toc_auto = toc_auto pg, toc_nav = toc_nav pg,
            trace = trace pg @ Fetch (request_url (data_file c)) # evs\<rparr>
         \<and> fst (convert_diagrams p) = None \<and> fst (style_all_tables p) = None
         \<and> fst (generate_toc p) = None"
proof -
  let ?pg1 = "emit (Fetch (request_url (data_file c))) pg"
  have thrown: "\<exists>x. on_markdown env md ?pg1 =
      (Some e, \<lparr>container = Some (c\<lparr>inner := x\<rparr>), toc_auto = toc_auto pg, toc_nav = toc_nav pg,
                trace = trace pg @ Fetch (request_url (data_file c)) # evs\<rparr>)"
  proof -
    have same: "\<exists>x. c = c\<lparr>inner := x\<rparr>"
      by (rule exI [of _ "inner c"]) simp
    from assms(1,3) show ?thesis
      by (cases pg)
         (auto simp: on_markdown_def step_defs quiet_def call_events_def same
            split: option.splits call.splits)
  qed
  then obtain x where "on_markdown env md ?pg1 =
      (Some e, \<lparr>container = Some (c\<lparr>inner := x\<rparr>), toc_auto = toc_auto pg, toc_nav = toc_nav pg,
                trace = trace pg @ Fetch (request_url (data_file c)) # evs\<rparr>)"
    by blast
  with assms(1,2) have "on_load env pg =
           \<lparr>container = Some (c\<lparr>inner := Markup (failure_markup e)\<rparr>),
            toc_auto = toc_auto pg, toc_nav = toc_nav pg,
            trace = trace pg @ Fetch (request_url (data_file c)) # evs\<rparr>"
    by (simp add: on_load_def on_error_def set_inner_def)
  moreover have "fst (convert_diagrams p) = None" "fst (style_all_tables p) = None"
    by (simp_all add: convert_diagrams_def style_all_tables_def)
  moreover have "fst (generate_toc p) = None"
    using generate_toc_returns [of p] by (metis fst_conv)
  ultimately show ?thesis
    by simp
qed

theorem stage_failure_aborts_witness:
  "on_load ((browser (serves ''# A'') [Elem ''h1'' no_attrs [Text ''A'']])
               \<lparr>mermaid := Some (Throws (Exn ''TypeError'' ''mermaid.run is not a function'')),
                mathjax := Some Returns\<rparr>)
       (blank_page (Some ''post.md'')) =
     \<lparr>container = Some \<lparr>data_file = Some ''post.md'',
        inner = Markup ''<p style=\"color:red\">Failed to load markdown: TypeError: mermaid.run is not a function</p>''\<rparr>,
      toc_auto = True, toc_nav = Some [],
      trace = [Fetch ''post.md'', MarkedParse, HighlightAll [Elem ''h1'' no_attrs [Text ''A'']],
               MermaidConvert, TableStyling, MermaidRun]\<rparr>"
proof -
  let ?doc = "[Elem ''h1'' no_attrs [Text ''A'']]"
  let ?e = "Exn ''TypeError'' ''mermaid.run is not a function''"
  let ?env = "(browser (serves ''# A'') ?doc)\<lparr>mermaid := Some (Throws ?e), mathjax := Some Returns\<rparr>"
  let ?c = "\<lparr>data_file = Some ''post.md'', inner = Nodes []\<rparr>"
  have c: "container (blank_page (Some ''post.md'')) = Some ?c"
    by (simp add: blank_page_def)
  have r: "on_response (net ?env (request_url (data_file ?c))) = Inr ''# A''"
    by (simp add: on_response_def example_defs request_url_def)
  have m: "marked ?env = Some (renders_as ?doc) \<and> renders_as ?doc ''# A'' = Inr ?doc
      \<and> hljs ?env = Some leaves_as_is \<and> leaves_as_is ?doc = Inr ?doc
      \<and> mermaid ?env = Some (Throws ?e)
      \<and> [MarkedParse, HighlightAll ?doc, MermaidConvert, TableStyling, MermaidRun]
          = [MarkedParse, HighlightAll ?doc, MermaidConvert, TableStyling, MermaidRun]"
    by (simp add: example_defs)
  from stage_failure_aborts [where pg = "blank_page (Some ''post.md'')" and c = ?c and env = ?env
      and md = "''# A''" and e = ?e and parse = "renders_as ?doc" and html = ?doc
      and hl = leaves_as_is and ns = ?doc
      and evs = "[MarkedParse, HighlightAll ?doc, MermaidConvert, TableStyling, MermaidRun]",
      OF c r] m
  show ?thesis
    by (simp add: blank_page_def request_url_def failure_markup_def exn_to_string_def)
qed

subsection \<open>C4: a fetch that fails\<close>

text \<open>
  C4. When the fetch is rejected, answers with a status that is not a success, or fails
  while its body is read, the handler leaves the page as it was but for two things: the
  content of the render target is the one failure paragraph, carrying the text of the error
  (\<^verbatim>\<open>Error: HTTP\<close> and the status, for a status that is not a success), and the only
  invocation is the fetch. No step of the second callback runs, and the navigation target
  keeps what it had: no table of contents is produced.
\<close>

theorem fetch_failure_aborts:
  assumes "container pg = Some c"
    and "net env (request_url (data_file c)) = r"
    and "r = Rejected e
         \<or> r = Response False st b \<and> e = Exn ''Error'' (''HTTP '' @ show_nat st)
         \<or> r = Response True st (Inl e)"
  shows "on_load env pg =
    pg\<lparr>container := Some (c\<lparr>inner := Markup (failure_markup e)\<rparr>),
       trace := trace pg @ [Fetch (request_url (data_file c))]\<rparr>"
proof -
  from assms(2,3) have "on_response (net env (request_url (data_file c))) = Inl e"
    by (auto simp: on_response_def)
  from on_load_failure [OF assms(1) this] show ?thesis .
qed

theorem fetch_failure_aborts_witness:
  "container (blank_page (Some ''post.md'')) = Some \<lparr>data_file = Some ''post.md'', inner = Nodes []\<rparr>
   \<and> net (browser not_found []) ''post.md'' = Response False 404 (Inr ''Not Found'')
   \<and> on_load (browser not_found []) (blank_page (Some ''post.md'')) =
       \<lparr>container = Some \<lparr>data_file = Some ''post.md'',
          inner = Markup ''<p style=\"color:red\">Failed to load markdown: Error: HTTP 404</p>''\<rparr>,
        toc_auto = True, toc_nav = Some [], trace = [Fetch ''post.md'']\<rparr>"
  using fetch_failure_aborts [of "blank_page (Some ''post.md'')"
      "\<lparr>data_file = Some ''post.md'', inner = Nodes []\<rparr>" "browser not_found []"
      "Response False 404 (Inr ''Not Found'')" "Exn ''Error'' ''HTTP 404''" 404 "Inr ''Not Found''"]
  by (simp add: example_defs request_url_def exn_to_string_def failure_markup_def show_nat.simps)

subsection \<open>C5: a render target without a document reference\<close>

text \<open>
  The handler returns early only when the render target itself is missing (line 3). A render
  target without \<^verbatim>\<open>data-file\<close> is not a no-op: the reference reads as \<^verbatim>\<open>undefined\<close>,
  the fetch is issued for it, and its outcome is written into the render target.
\<close>

theorem missing_reference_still_fetches:
  "on_load (browser not_found []) (blank_page None) =
     \<lparr>container = Some \<lparr>data_file = None,
        inner = Markup ''<p style=\"color:red\">Failed to load markdown: Error: HTTP 404</p>''\<rparr>,
      toc_auto = True, toc_nav = Some [], trace = [Fetch ''undefined'']\<rparr>"
  by (simp add: on_load_def on_response_def on_error_def emit_def set_inner_def example_defs
        request_url_def exn_to_string_def failure_markup_def show_nat.simps)

text \<open>
  C5, as the code has it. Without a render target the handler does nothing: the page, with
  its record of invocations, is unchanged. A render target that carries no document
  reference is handled exactly like one whose reference is the string \<^verbatim>\<open>undefined\<close>: the
  first thing the handler does is fetch \<^verbatim>\<open>undefined\<close>, and the page it leaves is the page
  it leaves for that reference, but for the missing attribute. In particular, when that
  fetch fails, the content of the render target becomes the failure paragraph, and nothing
  else changes.
\<close>

theorem no_target_no_action:
  "(container pg = None \<longrightarrow> on_load env pg = pg)
   \<and> (container pg = Some c \<and> data_file c = None \<longrightarrow>
        (\<exists>rest. trace (on_load env pg) = trace pg @ Fetch ''undefined'' # rest)
        \<and> on_load env pg = with_file None (on_load env (with_file (Some ''undefined'') pg))
        \<and> (on_response (net env ''undefined'') = Inl e \<longrightarrow>
              on_load env pg =
                \<lparr>container = Some (c\<lparr>inner := Markup (failure_markup e)\<rparr>),
                 toc_auto = toc_auto pg, toc_nav = toc_nav pg,
                 trace = trace pg @ [Fetch ''undefined'']\<rparr>))"
proof (intro conjI impI)
  assume "container pg = None"
  then show "on_load env pg = pg" by (rule on_load_no_container)
next
  assume c: "container pg = Some c \<and> data_file c = None"
  let ?pg1 = "emit (Fetch ''undefined'') pg"
  show "\<exists>rest. trace (on_load env pg) = trace pg @ Fetch ''undefined'' # rest"
  proof (cases "on_response (net env ''undefined'')")
    case (Inl e)
    with c show ?thesis
      by (simp add: on_load_def request_url_def on_error_fields emit_def)
  next
    case (Inr md)
    obtain evs where evs: "trace (snd (on_markdown env md ?pg1)) = trace ?pg1 @ evs"
      using on_markdown_trace by blast
    with c Inr show ?thesis
      by (cases "on_markdown env md ?pg1")
         (auto simp: on_load_def request_url_def on_error_fields emit_def split: option.splits)
  qed
next
  assume c: "container pg = Some c \<and> data_file c = None"
  then have "container pg = Some c" and u: "request_url (data_file c) = ''undefined''"
    and n: "data_file c = None"
    by (simp_all add: request_url_def)
  from on_load_with_file [OF this(1), of env]
  show "on_load env pg = with_file None (on_load env (with_file (Some ''undefined'') pg))"
    by (simp add: n request_url_def)
next
  assume c: "container pg = Some c \<and> data_file c = None"
    and e: "on_response (net env ''undefined'') = Inl e"
  from c have "container pg = Some c" and u: "request_url (data_file c) = ''undefined''"
    by (simp_all add: request_url_def)
  from on_load_failure [OF this(1), of env e] e
  show "on_load env pg =
                \<lparr>container = Some (c\<lparr>inner := Markup (failure_markup e)\<rparr>),
                 toc_auto = toc_auto pg, toc_nav = toc_nav pg,
                 trace = trace pg @ [Fetch ''undefined'']\<rparr>"
    unfolding u by (cases pg) simp
qed

theorem no_target_no_action_witness:
  "on_load (browser not_found []) \<lparr>container = None, toc_auto = True, toc_nav = Some [], trace = []\<rparr>
     = \<lparr>container = None, toc_auto = True, toc_nav = Some [], trace = []\<rparr>
   \<and> on_load (browser not_found []) (blank_page None) =
       \<lparr>container = Some \<lparr>data_file = None,
          inner = Markup (failure_markup (Exn ''Error'' ''HTTP 404''))\<rparr>,
        toc_auto = True, toc_nav = Some [], trace = [Fetch ''undefined'']\<rparr>
   \<and> on_load (browser not_found []) (blank_page None) =
       with_file None (on_load (browser not_found []) (with_file (Some ''undefined'') (blank_page None)))"
proof -
  let ?env = "browser not_found []"
  let ?c = "\<lparr>data_file = None, inner = Nodes []\<rparr>"
  let ?e = "Exn ''Error'' ''HTTP 404''"
  have r: "on_response (net ?env ''undefined'') = Inl ?e"
    by (simp add: on_response_def example_defs show_nat.simps)
  have c: "container (blank_page None) = Some ?c \<and> data_file ?c = None"
    by (simp add: blank_page_def)
  have none: "on_load ?env \<lparr>container = None, toc_auto = True, toc_nav = Some [], trace = []\<rparr>
      = \<lparr>container = None, toc_auto = True, toc_nav = Some [], trace = []\<rparr>"
    using no_target_no_action [of "\<lparr>container = None, toc_auto = True, toc_nav = Some [], trace = []\<rparr>"
      ?env ?c ?e]
    by simp
  note some = no_target_no_action [of "blank_page None" ?env ?c ?e, THEN conjunct2, THEN mp, OF c]
  from some have same: "on_load ?env (blank_page None) =
      with_file None (on_load ?env (with_file (Some ''undefined'') (blank_page None)))"
    by (rule conjunct1 [OF conjunct2])
  from some r have "on_load ?env (blank_page None) =
      \<lparr>container = Some (?c\<lparr>inner := Markup (failure_markup ?e)\<rparr>),
       toc_auto = toc_auto (blank_page None), toc_nav = toc_nav (blank_page None),
       trace = trace (blank_page None) @ [Fetch ''undefined'']\<rparr>"
    by blast
  then have failed: "on_load ?env (blank_page None) =
       \<lparr>container = Some \<lparr>data_file = None, inner = Markup (failure_markup ?e)\<rparr>,
        toc_auto = True, toc_nav = Some [], trace = [Fetch ''undefined'']\<rparr>"
    by (simp add: blank_page_def)
  from none failed same show ?thesis
    by (intro conjI)
qed

subsection \<open>C6: which rows are shaded\<close>

text \<open>
  \<^verbatim>\<open>tr:nth-child(even)\<close> counts from one: in a table with a header row and three data
  rows, the second data row is the only row that is shaded. The first data row, index zero
  of the body, is not.
\<close>

theorem first_data_row_not_shaded:
  "row_backgrounds (fragment (on_load
       (browser (serves ''a table'')
          [Elem ''table'' no_attrs
             [Elem ''thead'' no_attrs [Elem ''tr'' no_attrs [Elem ''th'' no_attrs [Text ''n'']]],
              Elem ''tbody'' no_attrs
                [Elem ''tr'' no_attrs [Elem ''td'' no_attrs [Text ''0'']],
                 Elem ''tr'' no_attrs [Elem ''td'' no_attrs [Text ''1'']],
                 Elem ''tr'' no_attrs [Elem ''td'' no_attrs [Text ''2'']]]]])
       (blank_page (Some ''post.md'')))) = [None, None, Some ''#f6f8fa'', None]"
  by code_simp

text \<open>
  C6, as the code has it. Step 4 never throws, and it changes inline styles and classes
  only, whatever the stylesheets do. Every table of the fragment gets the four table
  classes, collapsed borders, the border \<^verbatim>\<open>1px solid #d0d7de\<close>, the margin and the width
  \<^verbatim>\<open>100%\<close>; every cell below a table gets that border and the padding; every row below a
  table that is the second, fourth, ... element child of its parent, counted from one, gets
  the background \<^verbatim>\<open>#f6f8fa\<close>; every other element keeps its attributes. So in a table with
  a \<^verbatim>\<open>tbody\<close> that holds the data rows and, but for text between them, nothing else, with
  the first data row counted as index zero, the data rows of odd index get the shade and the
  data rows of even index keep the attributes they had.
\<close>

theorem table_styling_element_by_element:
  "style_all_tables pg =
     (None, set_inner (Nodes (restyle False 1 (fragment pg))) (emit TableStyling pg))
   \<and> (map_of (style (style_table a)) ''borderCollapse'' = Some ''collapse''
      \<and> map_of (style (style_table a)) ''border'' = Some ''1px solid #d0d7de''
      \<and> map_of (style (style_table a)) ''margin'' = Some ''1rem 0''
      \<and> map_of (style (style_table a)) ''width'' = Some ''100%''
      \<and> set [''table'', ''table-striped'', ''table-bordered'', ''table-hover'']
            \<subseteq> set (classes (style_table a))
      \<and> map_of (style (style_cell a)) ''border'' = Some ''1px solid #d0d7de''
      \<and> map_of (style (style_cell a)) ''padding'' = Some ''6px 13px''
      \<and> map_of (style (shade a)) ''backgroundColor'' = Some ''#f6f8fa'')
   \<and> (k < length ks \<and> ks ! k = Elem ''tbody'' ba rows \<and> rows_only rows \<longrightarrow>
        (\<exists>ks' rows'.
           style_tables (Elem ''table'' a ks) = Elem ''table'' (style_table a) ks'
           \<and> length ks' = length ks \<and> ks' ! k = Elem ''tbody'' ba rows'
           \<and> length (filter (tagged ''tr'') rows') = length (filter (tagged ''tr'') rows)
           \<and> (\<forall>j < length (filter (tagged ''tr'') rows).
                 attr (filter (tagged ''tr'') rows' ! j) =
                   (if odd j then shade (attr (filter (tagged ''tr'') rows ! j))
                    else attr (filter (tagged ''tr'') rows ! j)))))"
proof (intro conjI impI)
  show "style_all_tables pg =
     (None, set_inner (Nodes (restyle False 1 (fragment pg))) (emit TableStyling pg))"
    using style_tables_restyle [of False 1 "fragment pg"]
    by (simp add: style_all_tables_def emit_def fragment_def)
next
  assume "k < length ks \<and> ks ! k = Elem ''tbody'' ba rows \<and> rows_only rows"
  then have k: "k < length ks" and body: "ks ! k = Elem ''tbody'' ba rows" and rows: "rows_only rows"
    by simp_all
  let ?tbl = "Elem ''table'' a ks"
  have "[style_tables ?tbl] = restyle False 1 [?tbl]"
    using style_tables_restyle [of False 1 "[?tbl]"] by simp
  then have "style_tables ?tbl = Elem ''table'' (style_table a) (restyle True 1 ks)"
    by simp
  moreover have "length (restyle True 1 ks) = length ks"
    by (rule restyle_length)
  moreover have "restyle True 1 ks ! k = Elem ''tbody'' ba (restyle True 1 rows)"
    using k body by (rule restyle_group) simp_all
  moreover have "length (filter (tagged ''tr'') (restyle True 1 rows)) =
      length (filter (tagged ''tr'') rows)"
    using rows by (rule restyle_rows(1))
  moreover have "\<forall>j < length (filter (tagged ''tr'') rows).
      attr (filter (tagged ''tr'') (restyle True 1 rows) ! j) =
        (if odd j then shade (attr (filter (tagged ''tr'') rows ! j))
         else attr (filter (tagged ''tr'') rows ! j))"
    using restyle_rows(2) [OF rows, of _ 1] by simp
  ultimately show "\<exists>ks' rows'.
           style_tables ?tbl = Elem ''table'' (style_table a) ks'
           \<and> length ks' = length ks \<and> ks' ! k = Elem ''tbody'' ba rows'
           \<and> length (filter (tagged ''tr'') rows') = length (filter (tagged ''tr'') rows)
           \<and> (\<forall>j < length (filter (tagged ''tr'') rows).
                 attr (filter (tagged ''tr'') rows' ! j) =
                   (if odd j then shade (attr (filter (tagged ''tr'') rows ! j))
                    else attr (filter (tagged ''tr'') rows ! j)))"
    by blast
qed (use table_values(5) [of a] in \<open>simp_all add: table_values\<close>)

theorem table_styling_element_by_element_witness:
  "style_all_tables
     \<lparr>container = Some \<lparr>data_file = Some ''post.md'',
        inner = Nodes [Elem ''table'' no_attrs
          [Elem ''tbody'' no_attrs
             [Elem ''tr'' no_attrs [Elem ''td'' no_attrs [Text ''0'']],
              Elem ''tr'' no_attrs [Elem ''td'' no_attrs [Text ''1'']]]]]\<rparr>,
      toc_auto = True, toc_nav = Some [], trace = []\<rparr> =
   (None,
    \<lparr>container = Some \<lparr>data_file = Some ''post.md'',
       inner = Nodes [Elem ''table''
         \<lparr>ident = [], classes = [''table'', ''table-striped'', ''table-bordered'', ''table-hover''],
          style = [(''borderCollapse'', ''collapse''), (''border'', ''1px solid #d0d7de''),
                   (''margin'', ''1rem 0''), (''width'', ''100%'')], href = None\<rparr>
         [Elem ''tbody'' no_attrs
            [Elem ''tr'' no_attrs
               [Elem ''td'' \<lparr>ident = [], classes = [],
                  style = [(''border'', ''1px solid #d0d7de''), (''padding'', ''6px 13px'')],
                  href = None\<rparr> [Text ''0'']],
             Elem ''tr'' \<lparr>ident = [], classes = [], style = [(''backgroundColor'', ''#f6f8fa'')],
                href = None\<rparr>
               [Elem ''td'' \<lparr>ident = [], classes = [],
                  style = [(''border'', ''1px solid #d0d7de''), (''padding'', ''6px 13px'')],
                  href = None\<rparr> [Text ''1'']]]]]\<rparr>,
     toc_auto = True, toc_nav = Some [], trace = [TableStyling]\<rparr>)
   \<and> (\<exists>ks' rows'.
         style_tables (Elem ''table'' no_attrs
           [Text ''\<newline>'',
            Elem ''thead'' no_attrs [Elem ''tr'' no_attrs [Elem ''th'' no_attrs [Text ''n'']]],
            Text ''\<newline>'',
            Elem ''tbody'' no_attrs
              [Text ''\<newline>'', Elem ''tr'' no_attrs [Elem ''td'' no_attrs [Text ''0'']],
               Text ''\<newline>'', Elem ''tr'' no_attrs [Elem ''td'' no_attrs [Text ''1'']],
               Text ''\<newline>'', Elem ''tr'' no_attrs [Elem ''td'' no_attrs [Text ''2'']]]]) =
           Elem ''table'' (style_table no_attrs) ks'
         \<and> ks' ! 3 = Elem ''tbody'' no_attrs rows'
         \<and> map attr (filter (tagged ''tr'') rows') = [no_attrs, shade no_attrs, no_attrs])"
proof -
  let ?rows = "[Text ''\<newline>'', Elem ''tr'' no_attrs [Elem ''td'' no_attrs [Text ''0'']],
               Text ''\<newline>'', Elem ''tr'' no_attrs [Elem ''td'' no_attrs [Text ''1'']],
               Text ''\<newline>'', Elem ''tr'' no_attrs [Elem ''td'' no_attrs [Text ''2'']]]"
  let ?ks = "[Text ''\<newline>'',
              Elem ''thead'' no_attrs [Elem ''tr'' no_attrs [Elem ''th'' no_attrs [Text ''n'']]],
              Text ''\<newline>'', Elem ''tbody'' no_attrs ?rows]"
  have one: "style_all_tables
     \<lparr>container = Some \<lparr>data_file = Some ''post.md'',
        inner = Nodes [Elem ''table'' no_attrs
          [Elem ''tbody'' no_attrs
             [Elem ''tr'' no_attrs [Elem ''td'' no_attrs [Text ''0'']],
              Elem ''tr'' no_attrs [Elem ''td'' no_attrs [Text ''1'']]]]]\<rparr>,
      toc_auto = True, toc_nav = Some [], trace = []\<rparr> =
   (None,
    \<lparr>container = Some \<lparr>data_file = Some ''post.md'',
       inner = Nodes [Elem ''table''
         \<lparr>ident = [], classes = [''table'', ''table-striped'', ''table-bordered'', ''table-hover''],
          style = [(''borderCollapse'', ''collapse''), (''border'', ''1px solid #d0d7de''),
                   (''margin'', ''1rem 0''), (''width'', ''100%'')], href = None\<rparr>
         [Elem ''tbody'' no_attrs
            [Elem ''tr'' no_attrs
               [Elem ''td'' \<lparr>ident = [], classes = [],
                  style = [(''border'', ''1px solid #d0d7de''), (''padding'', ''6px 13px'')],
                  href = None\<rparr> [Text ''0'']],
             Elem ''tr'' \<lparr>ident = [], classes = [], style = [(''backgroundColor'', ''#f6f8fa'')],
                href = None\<rparr>
               [Elem ''td'' \<lparr>ident = [], classes = [],
                  style = [(''border'', ''1px solid #d0d7de''), (''padding'', ''6px 13px'')],
                  href = None\<rparr> [Text ''1'']]]]]\<rparr>,
     toc_auto = True, toc_nav = Some [], trace = [TableStyling]\<rparr>)"
  using table_styling_element_by_element [THEN conjunct1, of
     "\<lparr>container = Some \<lparr>data_file = Some ''post.md'',
        inner = Nodes [Elem ''table'' no_attrs
          [Elem ''tbody'' no_attrs
             [Elem ''tr'' no_attrs [Elem ''td'' no_attrs [Text ''0'']],
              Elem ''tr'' no_attrs [Elem ''td'' no_attrs [Text ''1'']]]]]\<rparr>,
      toc_auto = True, toc_nav = Some [], trace = []\<rparr>"]
  by (simp add: fragment_def set_inner_def emit_def style_table_def style_cell_def shade_def
        set_style_def add_class_def no_attrs_def)
  have h: "3 < length ?ks \<and> ?ks ! 3 = Elem ''tbody'' no_attrs ?rows \<and> rows_only ?rows"
    by (simp add: rows_only_def numeral_3_eq_3)
  have data: "filter (tagged ''tr'') ?rows =
      [Elem ''tr'' no_attrs [Elem ''td'' no_attrs [Text ''0'']],
       Elem ''tr'' no_attrs [Elem ''td'' no_attrs [Text ''1'']],
       Elem ''tr'' no_attrs [Elem ''td'' no_attrs [Text ''2'']]]"
    by (simp add: tagged_def)
  from table_styling_element_by_element [THEN conjunct2, THEN conjunct2, THEN mp, OF h, of no_attrs]
  obtain ks' rows' where
    tbl: "style_tables (Elem ''table'' no_attrs ?ks) = Elem ''table'' (style_table no_attrs) ks'"
    and body: "ks' ! 3 = Elem ''tbody'' no_attrs rows'"
    and len: "length (filter (tagged ''tr'') rows') = length (filter (tagged ''tr'') ?rows)"
    and each: "\<forall>j < length (filter (tagged ''tr'') ?rows).
        attr (filter (tagged ''tr'') rows' ! j) =
          (if odd j then shade (attr (filter (tagged ''tr'') ?rows ! j))
           else attr (filter (tagged ''tr'') ?rows ! j))"
    by blast
  from each have "attr (filter (tagged ''tr'') rows' ! 0) = no_attrs"
    "attr (filter (tagged ''tr'') rows' ! 1) = shade no_attrs"
    "attr (filter (tagged ''tr'') rows' ! 2) = no_attrs"
    unfolding data by simp_all
  with len have "map attr (filter (tagged ''tr'') rows') = [no_attrs, shade no_attrs, no_attrs]"
    unfolding data
    by (simp add: list_eq_iff_nth_eq less_Suc_eq numeral_3_eq_3 numeral_2_eq_2)
  with tbl body have two: "\<exists>ks' rows'.
         style_tables (Elem ''table'' no_attrs ?ks) = Elem ''table'' (style_table no_attrs) ks'
         \<and> ks' ! 3 = Elem ''tbody'' no_attrs rows'
         \<and> map attr (filter (tagged ''tr'') rows') = [no_attrs, shade no_attrs, no_attrs]"
    by (intro exI conjI)
  from one two show ?thesis
    by (rule conjI)
qed

subsection \<open>C7: math typesetting and the table of contents\<close>

text \<open>
  Typesetting is step 6 and the table of contents is step 7: with MathJax loaded, the
  typesetting is invoked before the table of contents is generated.
\<close>

theorem typesetting_before_toc:
  "trace (on_load ((browser (serves ''# A'') [Elem ''h1'' no_attrs [Text ''A'']])\<lparr>mathjax := Some Returns\<rparr>)
            (blank_page (Some ''post.md''))) =
     [Fetch ''post.md'', MarkedParse, HighlightAll [Elem ''h1'' no_attrs [Text ''A'']],
      MermaidConvert, TableStyling, MathTypeset, TocGeneration]"
  by (simp add: on_load_def on_response_def on_markdown_def step_defs generate_toc_def Let_def
        example_defs request_url_def headings_def descendants_def is_heading_def)

text \<open>
  C7, as the code has it. When MathJax is loaded and no step throws, the typesetting is
  invoked exactly once in the run, and the generation of the table of contents is the
  invocation right after it.
\<close>

theorem typeset_once_before_toc:
  assumes "container pg = Some c"
    and "on_response (net env (request_url (data_file c))) = Inr md"
    and "marked env = Some parse" and "parse md = Inr html"
    and "hljs env = Some hl" and "hl html = Inr ns"
    and "quiet (mermaid env)" and "mathjax env = Some Returns"
  shows "trace (on_load env pg) =
           trace pg @ [Fetch (request_url (data_file c)), MarkedParse, HighlightAll html,
                       MermaidConvert, TableStyling]
             @ call_events MermaidRun (mermaid env) @ [MathTypeset, TocGeneration]"
proof -
  have "quiet (mathjax env)"
    using assms(8) by (simp add: quiet_def)
  from on_load_success_trace [OF assms(1-7) this] show ?thesis
    using assms(8) by (simp add: call_events_def)
qed

theorem typeset_once_before_toc_witness:
  "trace (on_load ((browser (serves ''Euler'') [Text ''e = 2.718''])\<lparr>mermaid := Some Returns, mathjax := Some Returns\<rparr>)
            (blank_page (Some ''math.md''))) =
     [Fetch ''math.md'', MarkedParse, HighlightAll [Text ''e = 2.718''], MermaidConvert, TableStyling,
      MermaidRun, MathTypeset, TocGeneration]"
  using typeset_once_before_toc [of "blank_page (Some ''math.md'')"
      "\<lparr>data_file = Some ''math.md'', inner = Nodes []\<rparr>"
      "(browser (serves ''Euler'') [Text ''e = 2.718''])\<lparr>mermaid := Some Returns, mathjax := Some Returns\<rparr>"
      "''Euler''" "renders_as [Text ''e = 2.718'']" "[Text ''e = 2.718'']" leaves_as_is
      "[Text ''e = 2.718'']"]
  by (simp add: example_defs on_response_def request_url_def quiet_def call_events_def)

subsection \<open>C8: how a heading gets its identifier\<close>

text \<open>
  The derivation trims the text first and keeps underscores, neither of which is in the
  wording of the slug: \<^verbatim>\<open>snake_case\<close> keeps its underscore, and the leading blank of
  \<^verbatim>\<open> Intro\<close> is dropped instead of becoming a separator.
\<close>

theorem slug_keeps_underscore_and_trims:
  "heading_idents (on_load
       (browser (serves ''two headings'')
          [Elem ''h2'' no_attrs [Text ''snake_case''], Elem ''h2'' no_attrs [Text '' Intro'']])
       (blank_page (Some ''post.md''))) = [''snake_case'', ''intro'']
   \<and> map claimed_slug [''snake_case'', '' Intro''] = [''snakecase'', ''-intro'']"
  by code_simp

text \<open>
  C8, as the code has it. When step 7 builds a table of contents, each level-1/2/3 heading,
  in document order, ends up with this identifier: the one it already carries, unchanged,
  when that is not empty; otherwise the slug of its text, which is the words of the text
  (its maximal runs without whitespace, so leading and trailing whitespace count for
  nothing) joined by single hyphens, with every character other than a letter, a digit, an
  underscore or a hyphen stripped, in lower case.
\<close>

theorem heading_identifier_derivation:
  assumes "container pg = Some c" and "inner c = Nodes ns" and "toc_auto pg"
    and "toc_nav pg = Some old" and "headings ns \<noteq> []"
  shows "heading_idents (snd (generate_toc pg)) =
           map (\<lambda>h. if ident_of h \<noteq> [] then ident_of h else slug_by_words (text_content h))
             (headings ns)"
proof -
  have "heading_id h = (if ident_of h \<noteq> [] then ident_of h else slug_by_words (text_content h))"
    if "h \<in> set (headings ns)" for h
  proof -
    from that have "is_heading h"
      by (rule is_heading_headings)
    then show ?thesis
      by (cases h) (simp_all add: heading_id_def ident_of_def is_heading_def slugify_by_words)
  qed
  then show ?thesis
    by (simp add: toc_idents(1) [OF assms])
qed

theorem heading_identifier_derivation_witness:
  "heading_idents (snd (generate_toc
       \<lparr>container = Some \<lparr>data_file = Some ''post.md'',
          inner = Nodes [Elem ''h1'' (no_attrs\<lparr>ident := ''Top''\<rparr>) [Text ''Getting Started''],
                         Elem ''h2'' no_attrs [Text ''  Step 1:  install_all (now!) '']]\<rparr>,
        toc_auto = True, toc_nav = Some [], trace = []\<rparr>)) = [''Top'', ''step-1-install_all-now'']"
proof -
  let ?ns = "[Elem ''h1'' (no_attrs\<lparr>ident := ''Top''\<rparr>) [Text ''Getting Started''],
              Elem ''h2'' no_attrs [Text ''  Step 1:  install_all (now!) '']]"
  let ?c = "\<lparr>data_file = Some ''post.md'', inner = Nodes ?ns\<rparr>"
  let ?pg = "\<lparr>container = Some ?c, toc_auto = True, toc_nav = Some [], trace = []\<rparr>"
  have hs: "headings ?ns = ?ns"
    by (simp add: headings_def descendants_def is_heading_def)
  have slug: "slug_by_words ''  Step 1:  install_all (now!) '' = ''step-1-install_all-now''"
    by code_simp
  have "container ?pg = Some ?c" "inner ?c = Nodes ?ns" "toc_auto ?pg" "toc_nav ?pg = Some []"
    "headings ?ns \<noteq> []"
    by (simp_all add: hs)
  from heading_identifier_derivation [OF this]
  have "heading_idents (snd (generate_toc ?pg)) =
      map (\<lambda>h. if ident_of h \<noteq> [] then ident_of h else slug_by_words (text_content h)) ?ns"
    by (simp only: hs)
  also have "\<dots> = [''Top'', ''step-1-install_all-now'']"
    by (simp add: slug ident_of_def no_attrs_def)
  finally show ?thesis .
qed

subsection \<open>C9: the table of contents is one flat list\<close>

text \<open>
  C9. When step 7 builds a table of contents, the navigation target holds exactly one
  \<^verbatim>\<open>ul\<close>. Its children are the entries, one \<^verbatim>\<open>li\<close> per heading in document order; these
  are all the \<^verbatim>\<open>li\<close> elements of the navigation target, and the \<^verbatim>\<open>ul\<close> is its only
  \<^verbatim>\<open>ul\<close>. Each entry holds one link and nothing else, and the link holds only the text of
  its heading. The entry built for a heading does not depend on the level of the heading.
\<close>

theorem toc_is_flat:
  assumes "container pg = Some c" and "inner c = Nodes ns" and "toc_auto pg"
    and "toc_nav pg = Some old" and "headings ns \<noteq> []"
  shows "\<exists>items. toc_nav (snd (generate_toc pg)) = Some [Elem ''ul'' no_attrs items]
           \<and> length items = length (headings ns)
           \<and> filter (tagged ''li'') (descendants [Elem ''ul'' no_attrs items]) = items
           \<and> filter (tagged ''ul'') (descendants [Elem ''ul'' no_attrs items]) = [Elem ''ul'' no_attrs items]
           \<and> (\<forall>i < length items. \<exists>la aa.
                 items ! i = Elem ''li'' la [Elem ''a'' aa (set_text (text_content (headings ns ! i)))])
           \<and> (\<forall>idx t t' a ks. toc_item idx (Elem t a ks) = toc_item idx (Elem t' a ks))"
proof -
  let ?items = "map (\<lambda>(idx, h). toc_item idx h) (enumerate 0 (headings ns))"
  have nav: "toc_nav (snd (generate_toc pg)) = Some [Elem ''ul'' no_attrs ?items]"
    by (simp add: generate_toc_built [OF assms] build_toc_def)
  have len: "length ?items = length (headings ns)"
    by simp
  have li: "filter (tagged ''li'') (descendants [Elem ''ul'' no_attrs ?items]) = ?items"
    using toc_items_li [of 0 "headings ns"] by (simp add: descendants_def tagged_def)
  have ul: "filter (tagged ''ul'') (descendants [Elem ''ul'' no_attrs ?items]) = [Elem ''ul'' no_attrs ?items]"
    using toc_items_ul [of 0 "headings ns"] by (simp add: descendants_def tagged_def)
  have shape: "\<forall>i < length ?items. \<exists>la aa.
      ?items ! i = Elem ''li'' la [Elem ''a'' aa (set_text (text_content (headings ns ! i)))]"
    by (simp add: nth_enumerate_eq toc_item_def toc_link_def)
  have level: "\<forall>idx t t' a ks. toc_item idx (Elem t a ks) = toc_item idx (Elem t' a ks)"
    by (simp add: toc_item_def toc_link_def heading_id_def)
  from nav len li ul shape level show ?thesis
    by blast
qed

theorem toc_is_flat_witness:
  "toc_nav (snd (generate_toc
       \<lparr>container = Some \<lparr>data_file = Some ''post.md'',
          inner = Nodes [Elem ''h1'' no_attrs [Text ''Guide''],
                         Elem ''div'' no_attrs [Elem ''h2'' no_attrs [Text ''Setup'']],
                         Elem ''h3'' no_attrs [Text ''Ports'']]\<rparr>,
        toc_auto = True, toc_nav = Some [Text ''old''], trace = []\<rparr>)) =
     Some [Elem ''ul'' no_attrs
       [Elem ''li'' \<lparr>ident = [], classes = [''has-active''], style = [], href = None\<rparr>
          [Elem ''a'' \<lparr>ident = [], classes = [''active''], style = [], href = Some ''#guide''\<rparr>
             [Text ''Guide'']],
        Elem ''li'' no_attrs
          [Elem ''a'' \<lparr>ident = [], classes = [], style = [], href = Some ''#setup''\<rparr> [Text ''Setup'']],
        Elem ''li'' no_attrs
          [Elem ''a'' \<lparr>ident = [], classes = [], style = [], href = Some ''#ports''\<rparr> [Text ''Ports'']]]]"
proof -
  let ?ns = "[Elem ''h1'' no_attrs [Text ''Guide''],
              Elem ''div'' no_attrs [Elem ''h2'' no_attrs [Text ''Setup'']],
              Elem ''h3'' no_attrs [Text ''Ports'']]"
  let ?c = "\<lparr>data_file = Some ''post.md'', inner = Nodes ?ns\<rparr>"
  let ?pg = "\<lparr>container = Some ?c, toc_auto = True, toc_nav = Some [Text ''old''], trace = []\<rparr>"
  have hs: "headings ?ns = [Elem ''h1'' no_attrs [Text ''Guide''], Elem ''h2'' no_attrs [Text ''Setup''],
      Elem ''h3'' no_attrs [Text ''Ports'']]"
    by (simp add: headings_def descendants_def is_heading_def)
  have "container ?pg = Some ?c" "inner ?c = Nodes ?ns" "toc_auto ?pg" "toc_nav ?pg = Some [Text ''old'']"
    "headings ?ns \<noteq> []"
    by (simp_all add: hs)
  from toc_is_flat [OF this] obtain items where
    nav: "toc_nav (snd (generate_toc ?pg)) = Some [Elem ''ul'' no_attrs items]"
    by blast
  have "toc_nav (snd (generate_toc ?pg)) = Some [build_toc (headings ?ns)]"
    by code_simp
  moreover have "build_toc (headings ?ns) = Elem ''ul'' no_attrs
       [Elem ''li'' \<lparr>ident = [], classes = [''has-active''], style = [], href = None\<rparr>
          [Elem ''a'' \<lparr>ident = [], classes = [''active''], style = [], href = Some ''#guide''\<rparr>
             [Text ''Guide'']],
        Elem ''li'' no_attrs
          [Elem ''a'' \<lparr>ident = [], classes = [], style = [], href = Some ''#setup''\<rparr> [Text ''Setup'']],
        Elem ''li'' no_attrs
          [Elem ''a'' \<lparr>ident = [], classes = [], style = [], href = Some ''#ports''\<rparr> [Text ''Ports'']]]"
    by code_simp
  ultimately show ?thesis
    using nav by simp
qed

subsection \<open>C10: headings whose text has no word characters\<close>

text \<open>
  The text \<^verbatim>\<open>? ?\<close> has no letter, digit, underscore or hyphen: stripping it leaves
  nothing. But the blank between the question marks is replaced by a hyphen before the
  stripping, so the heading gets the identifier \<^verbatim>\<open>-\<close> and its entry points to \<^verbatim>\<open>#-\<close>.
\<close>

theorem blank_becomes_hyphen:
  "strip_unsafe ''? ?'' = []
   \<and> heading_idents (on_load (browser (serves ''## ? ?'') [Elem ''h2'' no_attrs [Text ''? ?'']])
         (blank_page (Some ''post.md''))) = [''-'']
   \<and> nav_links (on_load (browser (serves ''## ? ?'') [Elem ''h2'' no_attrs [Text ''? ?'']])
         (blank_page (Some ''post.md''))) = [''#-'']"
  by code_simp

text \<open>
  C10, as the code has it. When step 7 builds a table of contents, a heading without an
  identifier of its own is assigned the empty identifier exactly when its trimmed text has
  no letter, digit, underscore or hyphen and no whitespace either; the target of its entry
  is then exactly \<^verbatim>\<open>#\<close>.
\<close>

theorem empty_slug_gives_bare_hash:
  assumes "container pg = Some c" and "inner c = Nodes ns" and "toc_auto pg"
    and "toc_nav pg = Some old" and "i < length (headings ns)"
    and "ident_of (headings ns ! i) = []"
  shows "(heading_idents (snd (generate_toc pg)) ! i = []) =
           (\<forall>ch \<in> set (trim (text_content (headings ns ! i))).
              \<not> is_word ch \<and> ch \<noteq> CHR ''-'' \<and> \<not> is_space ch)
         \<and> nav_links (snd (generate_toc pg)) ! i = ''#'' @ heading_idents (snd (generate_toc pg)) ! i"
proof -
  from assms(5) have ne: "headings ns \<noteq> []"
    by auto
  let ?h = "headings ns ! i"
  from assms(5) have "?h \<in> set (headings ns)"
    by simp
  then have "is_heading ?h"
    by (rule is_heading_headings)
  with assms(6) have "heading_id ?h = slugify (text_content ?h)"
    by (cases ?h) (simp_all add: heading_id_def ident_of_def is_heading_def)
  then show ?thesis
    using assms(5)
    by (simp add: toc_idents [OF assms(1-4) ne] slugify_empty_iff)
qed

theorem empty_slug_gives_bare_hash_witness:
  "heading_idents (snd (generate_toc
       \<lparr>container = Some \<lparr>data_file = Some ''post.md'',
          inner = Nodes [Elem ''h1'' no_attrs [Text ''Notes''], Elem ''h2'' no_attrs [Text '' ?! '']]\<rparr>,
        toc_auto = True, toc_nav = Some [], trace = []\<rparr>)) ! 1 = []
   \<and> nav_links (snd (generate_toc
       \<lparr>container = Some \<lparr>data_file = Some ''post.md'',
          inner = Nodes [Elem ''h1'' no_attrs [Text ''Notes''], Elem ''h2'' no_attrs [Text '' ?! '']]\<rparr>,
        toc_auto = True, toc_nav = Some [], trace = []\<rparr>)) ! 1 = ''#''"
proof -
  let ?ns = "[Elem ''h1'' no_attrs [Text ''Notes''], Elem ''h2'' no_attrs [Text '' ?! '']]"
  let ?c = "\<lparr>data_file = Some ''post.md'', inner = Nodes ?ns\<rparr>"
  let ?pg = "\<lparr>container = Some ?c, toc_auto = True, toc_nav = Some [], trace = []\<rparr>"
  have hs: "headings ?ns = ?ns"
    by (simp add: headings_def descendants_def is_heading_def)
  have tr: "trim '' ?! '' = ''?!''"
    by code_simp
  have *: "\<forall>ch \<in> set (trim (text_content (headings ?ns ! 1))).
              \<not> is_word ch \<and> ch \<noteq> CHR ''-'' \<and> \<not> is_space ch"
    by (simp add: hs tr is_word_def is_space_def)
  have "container ?pg = Some ?c" "inner ?c = Nodes ?ns" "toc_auto ?pg" "toc_nav ?pg = Some []"
    "1 < length (headings ?ns)" "ident_of (headings ?ns ! 1) = []"
    by (simp_all add: hs) (simp add: ident_of_def no_attrs_def)
  from empty_slug_gives_bare_hash [OF this] * show ?thesis
    by simp
qed

end
